theory Spec2Isabelle
  imports Complex_Main
begin

section \<open>Python values used by both modules\<close>

text \<open>
  A Python \<open>str\<close> is a sequence of Unicode code points; it is modelled as a list of
  natural numbers, one per code point. A \<open>bytes\<close> object is a list of 8-bit
  characters. \<open>ascii\<close> writes a \<open>str\<close> literal from an Isabelle string literal.
\<close>

type_synonym str = "nat list"

type_synonym bytes = "char list"

definition ascii :: "string \<Rightarrow> str" where
  "ascii cs = map of_char cs"

text \<open>
  \<open>str.isspace\<close> on one code point, as \<open>str.strip()\<close> uses it: the ASCII
  whitespace table of the interpreter (TAB to CR, FS to US, SPACE) and the Unicode
  white-space code points.
\<close>

definition py_isspace :: "nat \<Rightarrow> bool" where
  "py_isspace c \<longleftrightarrow>
     (9 \<le> c \<and> c \<le> 13) \<or> (28 \<le> c \<and> c \<le> 32) \<or> c = 133 \<or> c = 160 \<or> c = 5760 \<or>
     (8192 \<le> c \<and> c \<le> 8202) \<or> c = 8232 \<or> c = 8233 \<or> c = 8239 \<or> c = 8287 \<or>
     c = 12288"

text \<open>\<open>s.strip()\<close>: leading and trailing whitespace removed.\<close>

definition strip :: "str \<Rightarrow> str" where
  "strip s = rev (dropWhile py_isspace (rev (dropWhile py_isspace s)))"

text \<open>
  \<open>s.replace(old, new)\<close>: one scan from the left; at each position where \<open>old\<close>
  starts, \<open>new\<close> is emitted and the scan resumes after the occurrence, so the
  occurrences replaced do not overlap and the text emitted is never scanned again. With
  an empty \<open>old\<close>, \<open>new\<close> is inserted before every code point and at the end.
\<close>

function replace_scan :: "str \<Rightarrow> str \<Rightarrow> str \<Rightarrow> str" where
  "replace_scan old new s =
     (if s = [] \<or> old = [] then s
      else if take (length old) s = old
        then new @ replace_scan old new (drop (length old) s)
        else hd s # replace_scan old new (tl s))"
  by pat_completeness auto
termination
  by (relation "measure (\<lambda>(old, new, s). length s)") auto

declare replace_scan.simps [simp del]

definition replace :: "str \<Rightarrow> str \<Rightarrow> str \<Rightarrow> str" where
  "replace s old new =
     (if old = [] then new @ concat (map (\<lambda>c. c # new) s) else replace_scan old new s)"

text \<open>\<open>s.split(sep)\<close> for a separator of one code point: every occurrence splits.\<close>

fun py_split :: "str \<Rightarrow> nat \<Rightarrow> str list" where
  "py_split [] sep = [[]]"
| "py_split (c # cs) sep =
     (if c = sep then [] # py_split cs sep
      else (case py_split cs sep of [] \<Rightarrow> [[c]] | p # ps \<Rightarrow> (c # p) # ps))"

text \<open>Decimal digits of a natural number, most significant first (code points 48 to 57).\<close>

function digits :: "nat \<Rightarrow> str" where
  "digits n = (if n < 10 then [48 + n] else digits (n div 10) @ [48 + n mod 10])"
  by pat_completeness auto
termination
  by (relation "measure id") auto

declare digits.simps [simp del]

text \<open>\<open>str(x)\<close> for an integer \<open>x\<close>.\<close>

definition str_int :: "int \<Rightarrow> str" where
  "str_int x = (if x < 0 then 45 # digits (nat (- x)) else digits (nat x))"

text \<open>
  The format specification \<open>0wd\<close> (\<open>f"{x:02d}"\<close> is \<open>format_0d 2 x\<close>): the sign, then
  zeros up to the minimum width \<open>w\<close>, then the digits. The width is a minimum: a number
  with more digits is written in full.
\<close>

definition format_0d :: "nat \<Rightarrow> int \<Rightarrow> str" where
  "format_0d w x =
     (let sgn = (if x < 0 then [45] else []); ds = digits (nat \<bar>x\<bar>)
      in sgn @ replicate (w - length sgn - length ds) 48 @ ds)"

text \<open>
  \<open>round(x)\<close> with one argument on the real value of a finite float: the nearest
  integer, a tie going to the even one.
\<close>

definition py_round :: "real \<Rightarrow> int" where
  "py_round x =
     (let f = \<lfloor>x\<rfloor>; d = x - of_int f
      in if d < 1 / 2 then f
         else if 1 / 2 < d then f + 1
         else if even f then f else f + 1)"

text \<open>The exceptions the two modules can meet.\<close>

datatype py_error = ValueError | OverflowError | OSError

text \<open>
  A Python \<open>float\<close> is an IEEE 754 binary64 value: a finite one is given by the real
  number it denotes, and there are the two infinities and NaN. (The sign of zero does
  not reach any result below and is not kept.)
\<close>

datatype pyfloat = Finite real | PosInf | NegInf | NaN

text \<open>\<open>int.bit_length()\<close> of a natural number.\<close>

function bit_length :: "nat \<Rightarrow> nat" where
  "bit_length n = (if n = 0 then 0 else Suc (bit_length (n div 2)))"
  by pat_completeness auto
termination
  by (relation "measure id") auto

declare bit_length.simps [simp del]

definition pow2 :: "int \<Rightarrow> real" where
  "pow2 e = (if 0 \<le> e then 2 ^ nat e else 1 / 2 ^ nat (- e))"

text \<open>
  The binary exponent of a positive real \<open>x\<close>: the \<open>k\<close> with
  \<open>2 ^ k \<le> x < 2 ^ (k + 1)\<close>.
\<close>

definition ilog2 :: "real \<Rightarrow> int" where
  "ilog2 x =
     (if 1 \<le> x then int (bit_length (nat \<lfloor>x\<rfloor>)) - 1
      else - int (bit_length (nat (\<lceil>1 / x\<rceil> - 1))))"

text \<open>
  The binary64 value of an exact real result, rounded to nearest with ties to even: the
  significand has 53 bits, so the last place is \<open>2 ^ (k - 52)\<close> for a number of
  exponent \<open>k\<close>, and \<open>2 ^ - 1074\<close> for the subnormal numbers below
  \<open>2 ^ - 1022\<close>; a result that rounds to \<open>2 ^ 1024\<close> or more overflows to an
  infinity.
\<close>

definition round_binary64 :: "real \<Rightarrow> pyfloat" where
  "round_binary64 r =
     (if r = 0 then Finite 0
      else
        (let e = max (ilog2 \<bar>r\<bar>) (- 1022) - 52;
             m = py_round (\<bar>r\<bar> / pow2 e);
             v = of_int m * pow2 e
         in if pow2 1024 \<le> v then (if 0 < r then PosInf else NegInf)
            else Finite (if 0 < r then v else - v)))"

text \<open>The product \<open>a * b\<close> of two floats.\<close>

fun fmul :: "pyfloat \<Rightarrow> pyfloat \<Rightarrow> pyfloat" where
  "fmul (Finite x) (Finite y) = round_binary64 (x * y)"
| "fmul NaN b = NaN"
| "fmul a NaN = NaN"
| "fmul (Finite x) PosInf = (if x = 0 then NaN else if 0 < x then PosInf else NegInf)"
| "fmul (Finite x) NegInf = (if x = 0 then NaN else if 0 < x then NegInf else PosInf)"
| "fmul PosInf (Finite y) = (if y = 0 then NaN else if 0 < y then PosInf else NegInf)"
| "fmul NegInf (Finite y) = (if y = 0 then NaN else if 0 < y then NegInf else PosInf)"
| "fmul PosInf PosInf = PosInf"
| "fmul PosInf NegInf = NegInf"
| "fmul NegInf PosInf = NegInf"
| "fmul NegInf NegInf = PosInf"

text \<open>
  \<open>round(x)\<close> on a float: an infinity raises \<open>OverflowError\<close> and NaN raises
  \<open>ValueError\<close>.
\<close>

fun round_float :: "pyfloat \<Rightarrow> py_error + int" where
  "round_float (Finite x) = Inr (py_round x)"
| "round_float PosInf = Inl OverflowError"
| "round_float NegInf = Inl OverflowError"
| "round_float NaN = Inl ValueError"

text \<open>
  \<open>math.isfinite\<close>, and the real number a finite float denotes (0 for the others,
  where it is never read).
\<close>

fun is_finite :: "pyfloat \<Rightarrow> bool" where
  "is_finite (Finite x) = True"
| "is_finite PosInf = False"
| "is_finite NegInf = False"
| "is_finite NaN = False"

fun float_value :: "pyfloat \<Rightarrow> real" where
  "float_value (Finite x) = x"
| "float_value PosInf = 0"
| "float_value NegInf = 0"
| "float_value NaN = 0"

section \<open>faster\_whisper/utils.py\<close>

definition format_timestamp :: "pyfloat \<Rightarrow> bool \<Rightarrow> str \<Rightarrow> py_error + str" where
  "format_timestamp seconds always_include_hours decimal_marker =
     (case round_float (fmul seconds (Finite 1000)) of
        Inl e \<Rightarrow> Inl e
      | Inr milliseconds \<Rightarrow>
          Inr (let hours = milliseconds div 3600000;
                   milliseconds = milliseconds - hours * 3600000;
                   minutes = milliseconds div 60000;
                   milliseconds = milliseconds - minutes * 60000;
                   seconds = milliseconds div 1000;
                   milliseconds = milliseconds - seconds * 1000;
                   hours_marker =
                     (if always_include_hours \<or> hours > 0
                      then format_0d 2 hours @ ascii '':'' else [])
               in hours_marker @ format_0d 2 minutes @ ascii '':'' @ format_0d 2 seconds
                    @ decimal_marker @ format_0d 3 milliseconds))"

text \<open>A segment of the transcription result: the attributes the writers read.\<close>

record segment =
  seg_start :: pyfloat
  seg_end :: pyfloat
  seg_text :: str

text \<open>
  A writer's \<open>write_result\<close> is modelled by what it does to the file: the text it
  has written, and the exception that left it, if any. \<open>print(x, file=file)\<close> writes
  \<open>x\<close> and a newline (code point 10); when the evaluation of \<open>x\<close> raises, nothing
  is written. \<open>for_each\<close> is the \<open>for\<close> loop: it stops at the first iteration that
  raises, and what was written before stays written.
\<close>

definition print_line :: "py_error + str \<Rightarrow> str \<times> py_error option" where
  "print_line x = (case x of Inl e \<Rightarrow> ([], Some e) | Inr t \<Rightarrow> (t @ [10], None))"

fun for_each :: "('a \<Rightarrow> str \<times> py_error option) \<Rightarrow> 'a list \<Rightarrow> str \<times> py_error option" where
  "for_each body [] = ([], None)"
| "for_each body (x # xs) =
     (case body x of
        (w, Some e) \<Rightarrow> (w, Some e)
      | (w, None) \<Rightarrow> (case for_each body xs of (w', r) \<Rightarrow> (w @ w', r)))"

definition WriteTXT_write_result :: "segment list \<Rightarrow> str \<times> py_error option" where
  "WriteTXT_write_result segments =
     for_each (\<lambda>g. print_line (Inr (strip (seg_text g)))) segments"

text \<open>The f-string of a WebVTT cue; its parts are evaluated from left to right.\<close>

definition vtt_cue :: "segment \<Rightarrow> py_error + str" where
  "vtt_cue g =
     (case format_timestamp (seg_start g) False (ascii ''.'') of
        Inl e \<Rightarrow> Inl e
      | Inr a \<Rightarrow>
          (case format_timestamp (seg_end g) False (ascii ''.'') of
             Inl e \<Rightarrow> Inl e
           | Inr b \<Rightarrow>
               Inr (a @ ascii '' --> '' @ b @ [10]
                    @ replace (strip (seg_text g)) (ascii ''-->'') (ascii ''->'') @ [10])))"

definition WriteVTT_write_result :: "segment list \<Rightarrow> str \<times> py_error option" where
  "WriteVTT_write_result segments =
     (case for_each (\<lambda>g. print_line (vtt_cue g)) segments of
        (w, r) \<Rightarrow> (ascii ''WEBVTT'' @ [10] @ [10] @ w, r))"

definition srt_cue :: "nat \<Rightarrow> segment \<Rightarrow> py_error + str" where
  "srt_cue i g =
     (case format_timestamp (seg_start g) True (ascii '','') of
        Inl e \<Rightarrow> Inl e
      | Inr a \<Rightarrow>
          (case format_timestamp (seg_end g) True (ascii '','') of
             Inl e \<Rightarrow> Inl e
           | Inr b \<Rightarrow>
               Inr (str_int (int i) @ [10] @ a @ ascii '' --> '' @ b @ [10]
                    @ replace (strip (seg_text g)) (ascii ''-->'') (ascii ''->'') @ [10])))"

definition WriteSRT_write_result :: "segment list \<Rightarrow> str \<times> py_error option" where
  "WriteSRT_write_result segments =
     for_each (\<lambda>(i, g). print_line (srt_cue i g)) (zip [1 ..< Suc (length segments)] segments)"

text \<open>
  The three \<open>print\<close> calls of the TSV writer for one segment: when the second
  \<open>round\<close> raises, the first number and its tab are already written.
\<close>

definition tsv_row :: "segment \<Rightarrow> str \<times> py_error option" where
  "tsv_row g =
     (case round_float (fmul (Finite 1000) (seg_start g)) of
        Inl e \<Rightarrow> ([], Some e)
      | Inr a \<Rightarrow>
          (case round_float (fmul (Finite 1000) (seg_end g)) of
             Inl e \<Rightarrow> (str_int a @ [9], Some e)
           | Inr b \<Rightarrow>
               (str_int a @ [9] @ str_int b @ [9]
                  @ replace (strip (seg_text g)) [9] (ascii '' '') @ [10], None)))"

definition WriteTSV_write_result :: "segment list \<Rightarrow> str \<times> py_error option" where
  "WriteTSV_write_result segments =
     (case for_each tsv_row segments of
        (w, r) \<Rightarrow> (ascii ''start'' @ [9] @ ascii ''end'' @ [9] @ ascii ''text'' @ [10] @ w, r))"

section \<open>text-converter/metadata.py\<close>

subsection \<open>The interpreter's library, as far as \<open>to_date\<close> uses it\<close>

text \<open>
  \<open>s[i:j]\<close>: a negative index counts from the end, and both indices are clamped to
  the length; the slice never raises.
\<close>

definition py_slice :: "'a list \<Rightarrow> int \<Rightarrow> int \<Rightarrow> 'a list" where
  "py_slice s i j =
     (let n = int (length s);
          lo = max 0 (min n (if i < 0 then n + i else i));
          hi = max 0 (min n (if j < 0 then n + j else j))
      in take (nat (hi - lo)) (drop (nat lo) s))"

record struct_time =
  tm_year :: int
  tm_mon :: int
  tm_mday :: int
  tm_hour :: int
  tm_min :: int
  tm_sec :: int
  tm_wday :: int
  tm_yday :: int
  tm_isdst :: int

text \<open>
  A \<open>datetime\<close> without time zone. \<open>mktime\<close> returns a whole number of seconds, so
  the microsecond of the value \<open>to_date\<close> builds is always 0 and is left out.
\<close>

record datetime =
  dt_year :: int
  dt_month :: int
  dt_day :: int
  dt_hour :: int
  dt_minute :: int
  dt_second :: int

text \<open>
  What the code takes from the machine it runs on: the decimal value of the digits of
  other scripts in the interpreter's Unicode database (\<open>\d\<close> and \<open>int\<close> accept
  them), and the C library's local time through \<open>time.mktime\<close> and
  \<open>datetime.fromtimestamp\<close>, each of which may raise. The timestamp is a float
  holding a whole number of seconds and is modelled as an integer.
\<close>

record host =
  decimal :: "nat \<Rightarrow> nat option"
  mktime :: "struct_time \<Rightarrow> py_error + int"
  fromtimestamp :: "int \<Rightarrow> py_error + datetime"

text \<open>
  The decimal value of a code point, if it is a decimal digit: the ASCII digits, and
  what the host's table adds. Whatever the table holds, a decimal value is at most 9
  and no white-space code point is a digit.
\<close>

definition digit_value :: "host \<Rightarrow> nat \<Rightarrow> nat option" where
  "digit_value H c =
     (if 48 \<le> c \<and> c \<le> 57 then Some (c - 48)
      else if py_isspace c then None
      else (case decimal H c of
              None \<Rightarrow> None
            | Some v \<Rightarrow> if v \<le> 9 then Some v else None))"

text \<open>
  The regular expression \<open>_strptime\<close> builds for a format is a sequence of groups, one
  per directive; a group is a list of alternatives, tried in order, and an alternative a
  sequence of character classes: a literal, a range of ASCII digits, or \<open>\d\<close>.
\<close>

datatype cls = Lit nat | Rng nat nat | Dig

fun cls_ok :: "host \<Rightarrow> cls \<Rightarrow> nat \<Rightarrow> bool" where
  "cls_ok H (Lit a) c = (c = a)"
| "cls_ok H (Rng a b) c = (a \<le> c \<and> c \<le> b)"
| "cls_ok H Dig c = (digit_value H c \<noteq> None)"

fun match_seq :: "host \<Rightarrow> cls list \<Rightarrow> str \<Rightarrow> (str \<times> str) option" where
  "match_seq H [] s = Some ([], s)"
| "match_seq H (p # ps) [] = None"
| "match_seq H (p # ps) (c # cs) =
     (if cls_ok H p c
      then (case match_seq H ps cs of None \<Rightarrow> None | Some (m, r) \<Rightarrow> Some (c # m, r))
      else None)"

text \<open>
  \<open>re.match\<close> on a sequence of groups, by backtracking: \<open>regex_match H as gs s\<close>
  tries the alternatives \<open>as\<close> of the current group in order and, for each that
  matches at the start of \<open>s\<close>, the remaining groups \<open>gs\<close> on the rest; the first
  success is the match. It returns the text of each group and the text left over: the
  pattern is not anchored at the end.
\<close>

fun regex_match :: "host \<Rightarrow> cls list list \<Rightarrow> cls list list list \<Rightarrow> str \<Rightarrow> (str list \<times> str) option" where
  "regex_match H [] gs s = None"
| "regex_match H (a # as) gs s =
     (case match_seq H a s of
        None \<Rightarrow> regex_match H as gs s
      | Some (m, r) \<Rightarrow>
          (case (case gs of [] \<Rightarrow> Some ([], r) | g # gs' \<Rightarrow> regex_match H g gs' r) of
             None \<Rightarrow> regex_match H as gs s
           | Some (ms, r') \<Rightarrow> Some (m # ms, r')))"

text \<open>
  The groups of the directives \<open>%Y %m %d %H %M %S\<close>, from the table of
  \<open>_strptime.TimeRE\<close>:
  \<open>\d\d\d\d\<close>, \<open>1[0-2]|0[1-9]|[1-9]\<close>, \<open>3[0-1]|[1-2]\d|0[1-9]|[1-9]| [1-9]\<close>,
  \<open>2[0-3]|[0-1]\d|\d\<close>, \<open>[0-5]\d|\d\<close>, \<open>6[0-1]|[0-5]\d|\d\<close>.
\<close>

definition re_Y :: "cls list list" where
  "re_Y = [[Dig, Dig, Dig, Dig]]"

definition re_m :: "cls list list" where
  "re_m = [[Lit 49, Rng 48 50], [Lit 48, Rng 49 57], [Rng 49 57]]"

definition re_d :: "cls list list" where
  "re_d = [[Lit 51, Rng 48 49], [Rng 49 50, Dig], [Lit 48, Rng 49 57], [Rng 49 57],
           [Lit 32, Rng 49 57]]"

definition re_H :: "cls list list" where
  "re_H = [[Lit 50, Rng 48 51], [Rng 48 49, Dig], [Dig]]"

definition re_M :: "cls list list" where
  "re_M = [[Rng 48 53, Dig], [Dig]]"

definition re_S :: "cls list list" where
  "re_S = [[Lit 54, Rng 48 49], [Rng 48 53, Dig], [Dig]]"

text \<open>
  The texts a group can match: \<open>fits H g m\<close> when some alternative of \<open>g\<close> matches
  exactly \<open>m\<close>. It is used to state what \<open>regex_match\<close> returns.
\<close>

definition fits :: "host \<Rightarrow> cls list list \<Rightarrow> str \<Rightarrow> bool" where
  "fits H g m \<longleftrightarrow> (\<exists>a \<in> set g. list_all2 (cls_ok H) a m)"

text \<open>
  \<open>int(s)\<close> on the text of a group: surrounding whitespace is dropped and the decimal
  digits are read. (The groups hold digits and at most one leading space; signs and
  underscores, which \<open>int\<close> also reads, do not occur in them and are answered
  \<open>None\<close>, the \<open>ValueError\<close>, here.)
\<close>

fun read_digits :: "host \<Rightarrow> int \<Rightarrow> str \<Rightarrow> int option" where
  "read_digits H acc [] = Some acc"
| "read_digits H acc (c # cs) =
     (case digit_value H c of
        None \<Rightarrow> None
      | Some v \<Rightarrow> read_digits H (10 * acc + int v) cs)"

definition py_int :: "host \<Rightarrow> str \<Rightarrow> int option" where
  "py_int H s = (let t = strip s in if t = [] then None else read_digits H 0 t)"

text \<open>The calendar of \<open>datetime.date\<close>.\<close>

definition is_leap :: "int \<Rightarrow> bool" where
  "is_leap year \<longleftrightarrow> year mod 4 = 0 \<and> (year mod 100 \<noteq> 0 \<or> year mod 400 = 0)"

definition days_in_month :: "int \<Rightarrow> int \<Rightarrow> int" where
  "days_in_month year month =
     (if month = 2 then (if is_leap year then 29 else 28)
      else if month = 4 \<or> month = 6 \<or> month = 9 \<or> month = 11 then 30 else 31)"

definition days_before_year :: "int \<Rightarrow> int" where
  "days_before_year year =
     (let y = year - 1 in y * 365 + y div 4 - y div 100 + y div 400)"

definition days_before_month :: "int \<Rightarrow> int \<Rightarrow> int" where
  "days_before_month year month =
     [0, 31, 59, 90, 120, 151, 181, 212, 243, 273, 304, 334] ! nat (month - 1)
       + (if month > 2 \<and> is_leap year then 1 else 0)"

definition ymd2ord :: "int \<Rightarrow> int \<Rightarrow> int \<Rightarrow> int" where
  "ymd2ord year month day = days_before_year year + days_before_month year month + day"

text \<open>
  \<open>time.strptime(data_string, "%Y%m%d%H%M%S")\<close>. Every failure is a \<open>ValueError\<close>:
  no match, text left over after the match, or a date that \<open>datetime.date\<close> refuses
  (year 0, or a day beyond the month's length) when the day of the year is computed.
\<close>

definition strptime :: "host \<Rightarrow> str \<Rightarrow> py_error + struct_time" where
  "strptime H data_string =
     (case regex_match H re_Y [re_m, re_d, re_H, re_M, re_S] data_string of
        Some ([gY, gm, gd, gH, gM, gS], rest) \<Rightarrow>
          (if rest \<noteq> [] then Inl ValueError
           else (case (py_int H gY, py_int H gm, py_int H gd, py_int H gH, py_int H gM, py_int H gS) of
              (Some year, Some month, Some day, Some hour, Some minute, Some second) \<Rightarrow>
                (if year < 1 \<or> 9999 < year \<or> month < 1 \<or> 12 < month
                    \<or> day < 1 \<or> days_in_month year month < day
                 then Inl ValueError
                 else Inr \<lparr>tm_year = year, tm_mon = month, tm_mday = day, tm_hour = hour,
                           tm_min = minute, tm_sec = second,
                           tm_wday = (ymd2ord year month day + 6) mod 7,
                           tm_yday = ymd2ord year month day - ymd2ord year 1 1 + 1,
                           tm_isdst = - 1\<rparr>)
            | _ \<Rightarrow> Inl ValueError))
      | _ \<Rightarrow> Inl ValueError)"

text \<open>
  \<open>bytes.decode('utf-8')\<close>, strict: \<open>None\<close> is the \<open>UnicodeDecodeError\<close>. A code
  point is refused when a continuation byte is missing or out of \<open>0x80..0xBF\<close>, when
  the encoding is longer than needed, for a surrogate, and beyond \<open>0x10FFFF\<close>.
\<close>

fun utf8_cont :: "nat \<Rightarrow> nat \<Rightarrow> bytes \<Rightarrow> (nat \<times> bytes) option" where
  "utf8_cont 0 acc r = Some (acc, r)"
| "utf8_cont (Suc k) acc [] = None"
| "utf8_cont (Suc k) acc (b # r) =
     (if 128 \<le> (of_char b :: nat) \<and> (of_char b :: nat) < 192
      then utf8_cont k (acc * 64 + (of_char b - 128)) r
      else None)"

definition utf8_next :: "nat \<Rightarrow> bytes \<Rightarrow> (nat \<times> bytes) option" where
  "utf8_next n r =
     (if n < 128 then Some (n, r)
      else if 192 \<le> n \<and> n < 224 then
        (case utf8_cont 1 (n - 192) r of
           Some (c, r') \<Rightarrow> if 128 \<le> c then Some (c, r') else None
         | None \<Rightarrow> None)
      else if 224 \<le> n \<and> n < 240 then
        (case utf8_cont 2 (n - 224) r of
           Some (c, r') \<Rightarrow> if 2048 \<le> c \<and> \<not> (55296 \<le> c \<and> c \<le> 57343) then Some (c, r') else None
         | None \<Rightarrow> None)
      else if 240 \<le> n \<and> n < 248 then
        (case utf8_cont 3 (n - 240) r of
           Some (c, r') \<Rightarrow> if 65536 \<le> c \<and> c \<le> 1114111 then Some (c, r') else None
         | None \<Rightarrow> None)
      else None)"

lemma utf8_cont_length: "utf8_cont k acc r = Some (c, r') \<Longrightarrow> length r' \<le> length r"
proof (induction k acc r rule: utf8_cont.induct)
  case (3 k acc b r)
  then show ?case by (auto split: if_splits)
qed simp_all

lemma utf8_next_length: "utf8_next n r = Some (c, r') \<Longrightarrow> length r' \<le> length r"
  by (auto simp: utf8_next_def split: if_splits option.splits dest: utf8_cont_length)

function utf8_decode :: "bytes \<Rightarrow> str option" where
  "utf8_decode [] = Some []"
| "utf8_decode (b # bs) =
     (case utf8_next (of_char b) bs of
        None \<Rightarrow> None
      | Some (c, r) \<Rightarrow> (case utf8_decode r of None \<Rightarrow> None | Some s \<Rightarrow> Some (c # s)))"
  by pat_completeness auto
termination
  by (relation "measure length") (auto dest: utf8_next_length simp: less_Suc_eq_le)

subsection \<open>\<open>to_date\<close>\<close>

text \<open>
  \<open>except ValueError: return None\<close>: a \<open>ValueError\<close> raised anywhere in the body
  becomes the value \<open>None\<close>; any other exception leaves \<open>to_date\<close>.
\<close>

definition except_ValueError :: "py_error \<Rightarrow> py_error + datetime option" where
  "except_ValueError e = (if e = ValueError then Inr None else Inl e)"

definition to_date :: "host \<Rightarrow> str \<Rightarrow> py_error + datetime option" where
  "to_date H date_str =
     (let datestring = py_slice date_str 2 (- 7) in
      case strptime H datestring of
        Inl e \<Rightarrow> except_ValueError e
      | Inr ts \<Rightarrow>
          (case mktime H ts of
             Inl e \<Rightarrow> except_ValueError e
           | Inr t \<Rightarrow>
               (case fromtimestamp H t of
                  Inl e \<Rightarrow> except_ValueError e
                | Inr d \<Rightarrow> Inr (Some d))))"

subsection \<open>\<open>get_document_metadata\<close>\<close>

text \<open>
  A value of the document's property map is a byte string, or an object of another
  type (a number, a name, an object reference), on which \<open>value.decode\<close> raises.
  The property map is a dictionary: its items in iteration order, with distinct keys.
\<close>

datatype pdf_value = Bytes bytes | Other

record PDFDocument =
  info :: "(str \<times> pdf_value) list list"

text \<open>
  The dictionary returned: \<open>properties\<close> is always there, with \<open>kind\<close> and
  \<open>attrs.pages\<close>; each of the five other keys is present (\<open>Some\<close>) or absent.
\<close>

record metadata =
  md_kind :: str
  md_pages :: int
  md_authors :: "str list option"
  md_title :: "str option"
  md_keywords :: "str list option"
  md_createdAt :: "str option"
  md_updatedAt :: "str option"

definition decode :: "pdf_value \<Rightarrow> str option" where
  "decode v = (case v of Bytes b \<Rightarrow> utf8_decode b | Other \<Rightarrow> None)"

text \<open>\<open>datetime.isoformat()\<close> with microsecond 0.\<close>

definition isoformat :: "datetime \<Rightarrow> str" where
  "isoformat d =
     format_0d 4 (dt_year d) @ ascii ''-'' @ format_0d 2 (dt_month d) @ ascii ''-''
       @ format_0d 2 (dt_day d) @ ascii ''T'' @ format_0d 2 (dt_hour d) @ ascii '':''
       @ format_0d 2 (dt_minute d) @ ascii '':'' @ format_0d 2 (dt_second d)"

text \<open>
  The body of the loop for one item. Each branch is a \<open>try\<close> whose \<open>except:\<close>
  clause catches everything and does nothing: whatever is raised inside, by
  \<open>decode\<close> or by \<open>to_date\<close>, leaves the dictionary as it was.
\<close>

definition loop_body :: "host \<Rightarrow> metadata \<Rightarrow> str \<times> pdf_value \<Rightarrow> metadata" where
  "loop_body H md item =
     (let key = fst item; value = snd item in
      if key = ascii ''Author'' then
        (case decode value of
           None \<Rightarrow> md
         | Some s \<Rightarrow>
             (let stripped_value = strip s in
              if length stripped_value > 0
              then md\<lparr>md_authors := Some (map strip (py_split stripped_value 59))\<rparr>
              else md))
      else if key = ascii ''Title'' then
        (case decode value of
           None \<Rightarrow> md
         | Some s \<Rightarrow>
             (let stripped_value = strip s in
              if length stripped_value > 0 then md\<lparr>md_title := Some stripped_value\<rparr> else md))
      else if key = ascii ''Keywords'' then
        (case decode value of
           None \<Rightarrow> md
         | Some s \<Rightarrow>
             (let stripped_value = strip s in
              if length stripped_value > 0
              then md\<lparr>md_keywords := Some (map strip (py_split stripped_value 44))\<rparr>
              else md))
      else if key = ascii ''CreationDate'' then
        (case decode value of
           None \<Rightarrow> md
         | Some s \<Rightarrow>
             (case to_date H s of
                Inr (Some date) \<Rightarrow> md\<lparr>md_createdAt := Some (isoformat date)\<rparr>
              | _ \<Rightarrow> md))
      else if key = ascii ''ModDate'' then
        (case decode value of
           None \<Rightarrow> md
         | Some s \<Rightarrow>
             (case to_date H s of
                Inr (Some date) \<Rightarrow> md\<lparr>md_updatedAt := Some (isoformat date)\<rparr>
              | _ \<Rightarrow> md))
      else md)"

definition get_document_metadata :: "host \<Rightarrow> PDFDocument \<Rightarrow> int \<Rightarrow> metadata" where
  "get_document_metadata H doc n =
     (let md = \<lparr>md_kind = ascii ''text'', md_pages = n, md_authors = None, md_title = None,
                 md_keywords = None, md_createdAt = None, md_updatedAt = None\<rparr>
      in case info doc of
           [] \<Rightarrow> md
         | items # _ \<Rightarrow> foldl (loop_body H) md items)"

subsection \<open>A reference host: Linux with \<open>TZ=UTC\<close>\<close>

text \<open>
  Used to evaluate \<open>to_date\<close> on concrete strings. No digits other than the ASCII ones
  are taken from its Unicode table. \<open>mktime\<close> is the count of seconds since 1970 of
  the fields, read as UTC, and does not fail. \<open>fromtimestamp\<close> converts back with
  \<open>datetime\<close>'s \<open>_ord2ymd\<close>; it raises \<open>ValueError\<close> for a year outside 1 to 9999,
  and also when the instant 24 hours earlier, which it probes to detect a repeated
  local time, falls before year 1.
\<close>

definition utc_mktime :: "struct_time \<Rightarrow> py_error + int" where
  "utc_mktime ts =
     (let y = tm_year ts + (tm_mon ts - 1) div 12; m = (tm_mon ts - 1) mod 12 + 1
      in Inr ((days_before_year y + days_before_month y m + tm_mday ts - 719163) * 86400
               + tm_hour ts * 3600 + tm_min ts * 60 + tm_sec ts))"

definition ord2ymd :: "int \<Rightarrow> int \<times> int \<times> int" where
  "ord2ymd ordinal =
     (let n = ordinal - 1;
          n400 = n div 146097; n = n mod 146097;
          n100 = n div 36524; n = n mod 36524;
          n4 = n div 1461; n = n mod 1461;
          n1 = n div 365; n = n mod 365;
          year = n400 * 400 + 1 + n100 * 100 + n4 * 4 + n1
      in if n1 = 4 \<or> n100 = 4 then (year - 1, 12, 31)
         else
           (let leapyear = (n1 = 3 \<and> (n4 \<noteq> 24 \<or> n100 = 3));
                month = (n + 50) div 32;
                preceding = days_before_month (if leapyear then 4 else 1) month
            in if preceding > n
               then (year, month - 1,
                     n - (preceding - days_in_month (if leapyear then 4 else 1) (month - 1)) + 1)
               else (year, month, n - preceding + 1)))"

definition utc_fromtimestamp :: "int \<Rightarrow> py_error + datetime" where
  "utc_fromtimestamp t =
     (let (year, month, day) = ord2ymd (t div 86400 + 719163);
          (pyear, pmonth, pday) = ord2ymd ((t - 86400) div 86400 + 719163);
          s = t mod 86400
      in if year < 1 \<or> 9999 < year \<or> pyear < 1 then Inl ValueError
         else Inr \<lparr>dt_year = year, dt_month = month, dt_day = day, dt_hour = s div 3600,
                   dt_minute = s mod 3600 div 60, dt_second = s mod 60\<rparr>)"

definition linux_utc :: host where
  "linux_utc = \<lparr>decimal = (\<lambda>c. None), mktime = utc_mktime, fromtimestamp = utc_fromtimestamp\<rparr>"

section \<open>Properties of the Python values\<close>

lemma digits_small: "n < 10 \<Longrightarrow> digits n = [48 + n]"
  by (subst digits.simps) simp

lemma digits_large: "10 \<le> n \<Longrightarrow> digits n = digits (n div 10) @ [48 + n mod 10]"
  by (subst digits.simps) simp

lemma digits_two: "10 \<le> n \<Longrightarrow> n < 100 \<Longrightarrow> digits n = [48 + n div 10, 48 + n mod 10]"
  by (simp add: digits_large digits_small)

lemma digits_three:
  "100 \<le> n \<Longrightarrow> n < 1000 \<Longrightarrow> digits n = [48 + n div 100, 48 + n div 10 mod 10, 48 + n mod 10]"
  by (simp add: digits_large [of n] digits_two div_mult2_eq [symmetric])

lemma digits_range: "c \<in> set (digits n) \<Longrightarrow> 48 \<le> c \<and> c \<le> 57"
proof (induction n arbitrary: c rule: digits.induct)
  case (1 n)
  show ?case
  proof (cases "n < 10")
    case True
    with "1.prems" show ?thesis by (simp add: digits_small)
  next
    case False
    with "1.prems" have "c \<in> set (digits (n div 10)) \<or> c = 48 + n mod 10"
      by (auto simp: digits_large)
    then show ?thesis
    proof
      assume "c \<in> set (digits (n div 10))"
      with False "1.IH" show ?thesis by simp
    next
      assume "c = 48 + n mod 10"
      moreover have "n mod 10 < 10" by simp
      ultimately show ?thesis by linarith
    qed
  qed
qed

lemma digits_nonempty: "digits n \<noteq> []"
  by (subst digits.simps) simp

lemma digits_length_ge3: "100 \<le> n \<Longrightarrow> 3 \<le> length (digits n)"
proof -
  assume h: "100 \<le> n"
  then have "digits n = digits (n div 10 div 10) @ [48 + n div 10 mod 10] @ [48 + n mod 10]"
    by (simp add: digits_large [of n] digits_large [of "n div 10"])
  moreover have "1 \<le> length (digits (n div 10 div 10))"
    using digits_nonempty [of "n div 10 div 10"] by (cases "digits (n div 10 div 10)") simp_all
  ultimately show ?thesis by simp
qed

lemma format_0d_2_lt10: "0 \<le> x \<Longrightarrow> x < 10 \<Longrightarrow> format_0d 2 x = [48, 48 + nat x]"
  by (simp add: format_0d_def digits_small numeral_2_eq_2)

lemma format_0d_2_lt100:
  "10 \<le> x \<Longrightarrow> x < 100 \<Longrightarrow> format_0d 2 x = [48 + nat x div 10, 48 + nat x mod 10]"
  by (simp add: format_0d_def digits_two)

lemma format_0d_2_two:
  assumes "0 \<le> x" "x < 100"
  shows "format_0d 2 x = [48 + nat x div 10, 48 + nat x mod 10]"
proof (cases "x < 10")
  case True
  with assms show ?thesis by (simp add: format_0d_2_lt10)
next
  case False
  with assms show ?thesis by (simp add: format_0d_2_lt100)
qed

lemma format_0d_2_ge100: "100 \<le> x \<Longrightarrow> format_0d 2 x = digits (nat x)"
proof -
  assume h: "100 \<le> x"
  then have "3 \<le> length (digits (nat x))" by (intro digits_length_ge3) linarith
  with h show ?thesis by (simp add: format_0d_def)
qed

lemma format_0d_3_three:
  assumes "0 \<le> x" "x < 1000"
  shows "format_0d 3 x = [48 + nat x div 100, 48 + nat x div 10 mod 10, 48 + nat x mod 10]"
proof -
  consider "x < 10" | "10 \<le> x" "x < 100" | "100 \<le> x" by linarith
  then show ?thesis
  proof cases
    case 1
    with assms show ?thesis by (simp add: format_0d_def digits_small numeral_3_eq_3)
  next
    case 2
    with assms show ?thesis by (simp add: format_0d_def digits_two)
  next
    case 3
    with assms show ?thesis by (simp add: format_0d_def digits_three)
  qed
qed

lemma py_round_nonneg: "0 \<le> x \<Longrightarrow> 0 \<le> py_round x"
  by (simp add: py_round_def Let_def)

lemma py_round_near: "\<bar>real_of_int (py_round x) - x\<bar> \<le> 1 / 2"
  unfolding py_round_def Let_def by (auto simp: abs_le_iff)

section \<open>The timestamp formatter\<close>

lemma mod_div_split:
  fixes x :: int
  assumes "0 < a" "0 \<le> b"
  shows "x mod (a * b) div a = x div a mod b"
proof -
  have "x mod (a * b) = a * (x div a mod b) + x mod a"
    using assms by (simp add: zmod_zmult2_eq)
  moreover have "0 \<le> x mod a" "x mod a < a"
    using assms by simp_all
  ultimately show ?thesis
    using assms by (simp add: div_pos_pos_trivial)
qed

lemma ms_parts:
  fixes ms :: int
  shows "(ms - ms div 3600000 * 3600000) div 60000 = ms div 60000 mod 60"
    and "ms - ms div 3600000 * 3600000 - ms div 60000 mod 60 * 60000 = ms mod 60000"
    and "ms mod 60000 div 1000 = ms div 1000 mod 60"
    and "ms mod 60000 - ms div 1000 mod 60 * 1000 = ms mod 1000"
proof -
  have a: "ms - ms div 3600000 * 3600000 = ms mod 3600000"
    by (simp add: minus_div_mult_eq_mod)
  have b: "ms mod 3600000 div 60000 = ms div 60000 mod 60"
    using mod_div_split [of 60000 60 ms] by simp
  show "(ms - ms div 3600000 * 3600000) div 60000 = ms div 60000 mod 60"
    by (simp only: a b)
  have c: "ms mod 3600000 = 60000 * (ms div 60000 mod 60) + ms mod 60000"
    using zmod_zmult2_eq [of 60 ms 60000] by simp
  show "ms - ms div 3600000 * 3600000 - ms div 60000 mod 60 * 60000 = ms mod 60000"
    by (simp add: a c)
  show d: "ms mod 60000 div 1000 = ms div 1000 mod 60"
    using mod_div_split [of 1000 60 ms] by simp
  have e: "ms mod 60000 = 1000 * (ms div 1000 mod 60) + ms mod 1000"
    using zmod_zmult2_eq [of 60 ms 1000] by simp
  show "ms mod 60000 - ms div 1000 mod 60 * 1000 = ms mod 1000"
    by (simp add: e)
qed

lemma digits_length_ge2: "10 \<le> n \<Longrightarrow> 2 \<le> length (digits n)"
proof -
  assume h: "10 \<le> n"
  have "1 \<le> length (digits (n div 10))"
    using digits_nonempty [of "n div 10"] by (cases "digits (n div 10)") simp_all
  with h show ?thesis by (simp add: digits_large [of n])
qed

lemma format_0d_2_ge10: "10 \<le> x \<Longrightarrow> format_0d 2 x = digits (nat x)"
proof -
  assume h: "10 \<le> x"
  then have "2 \<le> length (digits (nat x))" by (intro digits_length_ge2) linarith
  with h show ?thesis by (simp add: format_0d_def)
qed

lemma format_0d_2_hours:
  "0 \<le> h \<Longrightarrow> format_0d 2 h = (if h < 10 then [48, 48 + nat h] else digits (nat h))"
  by (simp add: format_0d_2_lt10 format_0d_2_ge10)

lemma ms_recompose:
  fixes ms :: int
  shows "ms = ms div 3600000 * 3600000 + ms div 60000 mod 60 * 60000
               + ms div 1000 mod 60 * 1000 + ms mod 1000"
proof -
  have "ms = ms div 3600000 * 3600000 + ms mod 3600000"
    by simp
  moreover have "ms mod 3600000 = 60000 * (ms div 60000 mod 60) + ms mod 60000"
    using zmod_zmult2_eq [of 60 ms 60000] by simp
  moreover have "ms mod 60000 = 1000 * (ms div 1000 mod 60) + ms mod 1000"
    using zmod_zmult2_eq [of 60 ms 1000] by simp
  ultimately show ?thesis by linarith
qed


lemma pow2_pos: "0 < pow2 e"
  by (simp add: pow2_def)

lemma round_binary64_nonneg:
  assumes "0 \<le> r"
  shows "round_binary64 r = PosInf \<or> (\<exists>p. 0 \<le> p \<and> round_binary64 r = Finite p)"
proof (cases "r = 0")
  case True
  then show ?thesis by (simp add: round_binary64_def)
next
  case False
  with assms have pos: "0 < r" by simp
  define e where "e = max (ilog2 \<bar>r\<bar>) (- 1022) - 52"
  define v where "v = real_of_int (py_round (\<bar>r\<bar> / pow2 e)) * pow2 e"
  have "0 \<le> \<bar>r\<bar> / pow2 e"
    using pow2_pos [of e] by simp
  then have "0 \<le> py_round (\<bar>r\<bar> / pow2 e)"
    by (rule py_round_nonneg)
  then have v0: "0 \<le> v"
    using pow2_pos [of e] by (simp add: v_def)
  have "round_binary64 r = (if pow2 1024 \<le> v then PosInf else Finite v)"
    using pos False by (simp add: round_binary64_def Let_def e_def v_def)
  with v0 show ?thesis by auto
qed

lemma fmul_1000_nonneg:
  assumes "0 \<le> t"
  shows "fmul (Finite t) (Finite 1000) = PosInf
      \<or> (\<exists>p. 0 \<le> p \<and> fmul (Finite t) (Finite 1000) = Finite p)"
    and "fmul (Finite 1000) (Finite t) = PosInf
      \<or> (\<exists>p. 0 \<le> p \<and> fmul (Finite 1000) (Finite t) = Finite p)"
  using assms round_binary64_nonneg [of "t * 1000"] round_binary64_nonneg [of "1000 * t"]
  by simp_all

lemma format_timestamp_raises:
  "round_float (fmul seconds (Finite 1000)) = Inl e \<Longrightarrow>
   format_timestamp seconds always_include_hours decimal_marker = Inl e"
  by (simp add: format_timestamp_def)

lemma format_timestamp_eq:
  assumes "round_float (fmul seconds (Finite 1000)) = Inr ms"
  shows "format_timestamp seconds aih dm =
     Inr ((if aih \<or> 0 < ms div 3600000 then format_0d 2 (ms div 3600000) @ [58] else [])
          @ format_0d 2 (ms div 60000 mod 60) @ [58]
          @ format_0d 2 (ms div 1000 mod 60) @ dm
          @ format_0d 3 (ms mod 1000))"
proof -
  have c: "ascii '':'' = [58]"
    by (simp add: ascii_def)
  show ?thesis
    unfolding format_timestamp_def assms sum.case Let_def ms_parts c by (rule refl)
qed

lemma format_timestamp_digits:
  assumes "round_float (fmul seconds (Finite 1000)) = Inr ms" "0 \<le> ms"
  shows "format_timestamp seconds aih dm =
     Inr ((if aih \<or> 0 < ms div 3600000
           then (if ms div 3600000 < 10 then [48, 48 + nat (ms div 3600000)]
                 else digits (nat (ms div 3600000))) @ [58]
           else [])
          @ [48 + nat (ms div 60000 mod 60) div 10, 48 + nat (ms div 60000 mod 60) mod 10, 58,
             48 + nat (ms div 1000 mod 60) div 10, 48 + nat (ms div 1000 mod 60) mod 10]
          @ dm
          @ [48 + nat (ms mod 1000) div 100, 48 + nat (ms mod 1000) div 10 mod 10,
             48 + nat (ms mod 1000) mod 10])"
proof -
  have h: "0 \<le> ms div 3600000"
    using assms(2) by (simp add: pos_imp_zdiv_nonneg_iff)
  have m: "format_0d 2 (ms div 60000 mod 60)
      = [48 + nat (ms div 60000 mod 60) div 10, 48 + nat (ms div 60000 mod 60) mod 10]"
    by (rule format_0d_2_two) simp_all
  have s: "format_0d 2 (ms div 1000 mod 60)
      = [48 + nat (ms div 1000 mod 60) div 10, 48 + nat (ms div 1000 mod 60) mod 10]"
    by (rule format_0d_2_two) simp_all
  have f: "format_0d 3 (ms mod 1000)
      = [48 + nat (ms mod 1000) div 100, 48 + nat (ms mod 1000) div 10 mod 10,
         48 + nat (ms mod 1000) mod 10]"
    by (rule format_0d_3_three) simp_all
  show ?thesis
    unfolding format_timestamp_eq [OF assms(1)] m s f format_0d_2_hours [OF h]
    by simp
qed

lemmas float_simps =
  round_binary64_def ilog2_def bit_length.simps pow2_def py_round_def Let_def

lemma round_ms_zero: "round_float (fmul (Finite 0) (Finite 1000)) = Inr 0"
  by (simp add: float_simps)

lemma round_ms_3661: "round_float (fmul (Finite 3661.5) (Finite 1000)) = Inr 3661500"
  by (simp add: float_simps)

lemma format_timestamp_zero:
  "format_timestamp (Finite 0) False (ascii ''.'') = Inr (ascii ''00:00.000'')"
  using format_timestamp_digits [OF round_ms_zero, of False "ascii ''.''"]
  by (simp add: ascii_def)

lemma format_timestamp_3661:
  "format_timestamp (Finite 3661.5) True (ascii ''.'') = Inr (ascii ''01:01:01.500'')"
  using format_timestamp_digits [OF round_ms_3661, of True "ascii ''.''"]
  by (simp add: ascii_def)

lemma bit_length_bounds:
  "0 < n \<Longrightarrow> 2 ^ (bit_length n - 1) \<le> n \<and> n < 2 ^ bit_length n"
proof (induction n rule: bit_length.induct)
  case (1 n)
  show ?case
  proof (cases "n div 2 = 0")
    case True
    with "1.prems" have n1: "n = 1" by presburger
    have "bit_length 1 = 1"
      by (subst bit_length.simps) (simp add: bit_length.simps [of 0])
    with n1 show ?thesis by simp
  next
    case False
    then have pos: "0 < n div 2" by simp
    from "1.prems" have n0: "n \<noteq> 0" by simp
    from "1.IH" [OF n0 pos]
    have lo: "2 ^ (bit_length (n div 2) - 1) \<le> n div 2"
      and hi: "n div 2 < 2 ^ bit_length (n div 2)"
      by simp_all
    have bl: "bit_length n = Suc (bit_length (n div 2))"
      using n0 by (subst bit_length.simps) simp
    have blpos: "0 < bit_length (n div 2)"
      using pos by (subst bit_length.simps) simp
    then have "(2::nat) ^ bit_length (n div 2) = 2 * 2 ^ (bit_length (n div 2) - 1)"
      by (cases "bit_length (n div 2)") simp_all
    with lo have "2 ^ bit_length (n div 2) \<le> 2 * (n div 2)" by simp
    also have "\<dots> \<le> n" by simp
    finally have a: "2 ^ (bit_length n - 1) \<le> n" by (simp add: bl)
    from hi have "Suc (n div 2) \<le> 2 ^ bit_length (n div 2)" by simp
    then have "2 * Suc (n div 2) \<le> 2 * 2 ^ bit_length (n div 2)" by simp
    moreover have "n < 2 * Suc (n div 2)" by presburger
    ultimately have b: "n < 2 ^ bit_length n" by (simp add: bl)
    from a b show ?thesis by simp
  qed
qed

lemma pow2_nat: "0 \<le> e \<Longrightarrow> pow2 e = 2 ^ nat e"
  by (simp add: pow2_def)

lemma pow2_add: "pow2 (a + b) = pow2 a * pow2 b"
proof -
  have "pow2 e = 2 powr (real_of_int e)" for e
    by (simp add: pow2_def powr_int)
  then show ?thesis
    by (simp add: powr_add)
qed

lemma pow2_mono: "a \<le> b \<Longrightarrow> pow2 a \<le> pow2 b"
proof -
  assume "a \<le> b"
  then obtain d where d: "b = a + d" "0 \<le> d"
    by (metis add.commute diff_add_cancel diff_ge_0_iff_ge)
  have "1 \<le> pow2 d" using d(2) by (simp add: pow2_nat)
  then show ?thesis
    using pow2_pos [of a] by (simp add: d(1) pow2_add)
qed

lemma ilog2_bounds:
  assumes "1 \<le> x"
  shows "pow2 (ilog2 x) \<le> x" and "x < pow2 (ilog2 x + 1)"
proof -
  define n where "n = nat \<lfloor>x\<rfloor>"
  have n: "0 < n" "real n \<le> x" "x < real n + 1"
    using assms by (simp_all add: n_def)
  have k: "ilog2 x = int (bit_length n) - 1"
    using assms by (simp add: ilog2_def n_def)
  from bit_length_bounds [OF n(1)]
  have lo: "2 ^ (bit_length n - 1) \<le> n" and hi: "n < 2 ^ bit_length n"
    by simp_all
  have bp: "0 < bit_length n"
    using n(1) by (subst bit_length.simps) simp
  then have e1: "pow2 (ilog2 x) = 2 ^ (bit_length n - 1)"
    by (simp add: k pow2_nat nat_diff_distrib')
  have e2: "pow2 (ilog2 x + 1) = 2 ^ bit_length n"
    by (simp add: k pow2_nat)
  from lo have lo': "(2::real) ^ (bit_length n - 1) \<le> real n"
    by (metis of_nat_le_iff of_nat_numeral of_nat_power)
  show "pow2 (ilog2 x) \<le> x"
    unfolding e1 using lo' n(2) by (rule order_trans)
  from hi have "Suc n \<le> 2 ^ bit_length n" by simp
  then have "real (Suc n) \<le> 2 ^ bit_length n"
    by (metis of_nat_le_iff of_nat_numeral of_nat_power)
  with n(3) show "x < pow2 (ilog2 x + 1)"
    by (simp add: e2)
qed

lemma py_round_ge:
  assumes "real_of_int N \<le> x"
  shows "N \<le> py_round x"
proof -
  from assms have "N \<le> \<lfloor>x\<rfloor>" by (simp add: le_floor_iff)
  moreover have "\<lfloor>x\<rfloor> \<le> py_round x"
    by (simp add: py_round_def Let_def)
  ultimately show ?thesis by simp
qed

lemma round_binary64_overflow:
  assumes "pow2 1024 \<le> r"
  shows "round_binary64 r = PosInf"
proof -
  have p1024: "(1::real) \<le> pow2 1024" by (simp add: pow2_def)
  with assms have r1: "1 \<le> r" and rpos: "0 < r" by simp_all
  define k where "k = ilog2 r"
  have kk: "pow2 k \<le> r" "r < pow2 (k + 1)"
    using ilog2_bounds [of r] r1 rpos by (simp_all add: k_def)
  have "pow2 1024 < pow2 (k + 1)" using assms kk(2) by simp
  then have "\<not> k + 1 \<le> 1024" using pow2_mono [of "k + 1" 1024] by auto
  then have k1024: "1024 \<le> k" by simp
  define e where "e = max k (- 1022) - 52"
  have e: "e = k - 52" using k1024 by (simp add: e_def)
  define m where "m = py_round (\<bar>r\<bar> / pow2 e)"
  have "pow2 k = pow2 52 * pow2 e"
    using pow2_add [of 52 e] by (simp add: e)
  with kk(1) have "pow2 52 * pow2 e \<le> r" by simp
  then have "pow2 52 \<le> r / pow2 e"
    using pow2_pos [of e] by (simp add: pos_le_divide_eq)
  moreover have "pow2 52 = real_of_int (2 ^ 52)" by (simp add: pow2_def)
  ultimately have "2 ^ 52 \<le> m"
    unfolding m_def using rpos py_round_ge [of "2 ^ 52" "\<bar>r\<bar> / pow2 e"] by simp
  then have "pow2 52 \<le> real_of_int m"
    by (simp add: pow2_def)
  then have "pow2 52 * pow2 e \<le> real_of_int m * pow2 e"
    using pow2_pos [of e] by simp
  then have "pow2 k \<le> real_of_int m * pow2 e"
    using pow2_add [of 52 e] by (simp add: e)
  with pow2_mono [OF k1024] have "pow2 1024 \<le> real_of_int m * pow2 e" by simp
  then have "pow2 1024 \<le> real_of_int (py_round (r / pow2 (max (ilog2 r) (- 1022) - 52)))
      * pow2 (max (ilog2 r) (- 1022) - 52)"
    using rpos by (simp add: m_def e_def k_def)
  then show ?thesis
    using rpos by (simp add: round_binary64_def Let_def)
qed

lemma format_timestamp_overflows:
  assumes "pow2 1024 \<le> t * 1000"
  shows "format_timestamp (Finite t) aih dm = Inl OverflowError"
  by (rule format_timestamp_raises) (simp add: round_binary64_overflow [OF assms])

lemma ilog2_lower:
  assumes "0 < x"
  shows "pow2 (ilog2 x) \<le> x"
proof (cases "1 \<le> x")
  case True
  then show ?thesis by (rule ilog2_bounds(1))
next
  case False
  with assms have x: "0 < x" "x < 1" by simp_all
  define c where "c = \<lceil>1 / x\<rceil>"
  define n where "n = nat (c - 1)"
  have "1 < 1 / x" using x by simp
  then have c2: "2 \<le> c" unfolding c_def by linarith
  then have n1: "0 < n" by (simp add: n_def)
  have "int n = c - 1" using c2 by (simp add: n_def)
  then have "real_of_int (int n) = real_of_int (c - 1)" by (rule arg_cong)
  then have cn: "real_of_int c = real n + 1" by simp
  have "1 / x \<le> real_of_int c" unfolding c_def by (rule le_of_int_ceiling)
  with cn have up: "1 / x \<le> real n + 1" by simp
  from bit_length_bounds [OF n1] have "n < 2 ^ bit_length n" by simp
  then have "Suc n \<le> 2 ^ bit_length n" by simp
  then have "real (Suc n) \<le> 2 ^ bit_length n"
    by (metis of_nat_le_iff of_nat_numeral of_nat_power)
  with up have "1 / x \<le> 2 ^ bit_length n" by simp
  then have "1 \<le> 2 ^ bit_length n * x"
    using x(1) by (simp add: pos_divide_le_eq)
  then have "1 / 2 ^ bit_length n \<le> x"
    by (simp add: pos_divide_le_eq mult.commute)
  moreover have "ilog2 x = - int (bit_length n)"
    using False by (simp add: ilog2_def n_def c_def)
  ultimately show ?thesis
    by (auto simp: pow2_def)
qed

lemma round_binary64_near:
  assumes "0 \<le> r" "round_binary64 r = Finite p"
  shows "\<bar>p - r\<bar> \<le> max (r / 2 ^ 53) (pow2 (- 1075))"
proof (cases "r = 0")
  case True
  with assms(2) have "p = 0" by (simp add: round_binary64_def)
  with True show ?thesis using pow2_pos [of "- 1075"] by simp
next
  case False
  with assms have pos: "0 < r" by simp
  define k where "k = ilog2 r"
  define e where "e = max k (- 1022) - 52"
  define m where "m = py_round (r / pow2 e)"
  have rb: "round_binary64 r
      = (if pow2 1024 \<le> real_of_int m * pow2 e then PosInf else Finite (real_of_int m * pow2 e))"
    using pos by (simp add: round_binary64_def Let_def m_def e_def k_def)
  with assms(2) have p: "p = real_of_int m * pow2 e"
    by (simp split: if_splits)
  have "\<bar>real_of_int m - r / pow2 e\<bar> \<le> 1 / 2"
    unfolding m_def by (rule py_round_near)
  then have "\<bar>real_of_int m - r / pow2 e\<bar> * pow2 e \<le> 1 / 2 * pow2 e"
    using pow2_pos [of e] by (simp only: mult_le_cancel_right_pos)
  moreover have "\<bar>real_of_int m - r / pow2 e\<bar> * pow2 e = \<bar>p - r\<bar>"
  proof -
    have "\<bar>real_of_int m - r / pow2 e\<bar> * pow2 e = \<bar>(real_of_int m - r / pow2 e) * pow2 e\<bar>"
      using pow2_pos [of e] by (simp add: abs_mult)
    also have "(real_of_int m - r / pow2 e) * pow2 e = p - r"
      using pow2_pos [of e] by (simp add: p left_diff_distrib)
    finally show ?thesis .
  qed
  ultimately have near: "\<bar>p - r\<bar> \<le> pow2 e / 2" by simp
  have half: "pow2 (a - 1) = pow2 a / 2" for a
    using pow2_add [of a "- 1"] by (simp add: pow2_def)
  show ?thesis
  proof (cases "- 1022 \<le> k")
    case True
    then have "e = k - 52" by (simp add: e_def)
    then have "pow2 k = pow2 e * pow2 52"
      using pow2_add [of e 52] by simp
    then have "pow2 e = pow2 k / 2 ^ 52"
      by (simp add: pow2_def)
    moreover have "pow2 k \<le> r"
      unfolding k_def using pos by (rule ilog2_lower)
    ultimately have "pow2 e / 2 \<le> r / 2 ^ 53"
      by (simp add: field_simps)
    with near have "\<bar>p - r\<bar> \<le> r / 2 ^ 53" by (rule order_trans)
    then show ?thesis by (rule max.coboundedI1)
  next
    case False
    then have "e = - 1074" by (simp add: e_def)
    then have "pow2 e / 2 = pow2 (- 1075)"
      using half [of "- 1074"] by simp
    with near have "\<bar>p - r\<bar> \<le> pow2 (- 1075)" by (simp only:)
    then show ?thesis by (rule max.coboundedI2)
  qed
qed

lemma round_ms_cases:
  assumes "0 \<le> t"
  obtains (overflow) "fmul (Finite t) (Finite 1000) = PosInf"
  | (finite) p where "fmul (Finite t) (Finite 1000) = Finite p" "0 \<le> p"
      "\<bar>p - t * 1000\<bar> \<le> max (t * 1000 / 2 ^ 53) (pow2 (- 1075))"
proof -
  have t: "0 \<le> t * 1000" using assms by simp
  from round_binary64_nonneg [OF t]
  show thesis
  proof
    assume "round_binary64 (t * 1000) = PosInf"
    then show thesis by (intro overflow) simp
  next
    assume "\<exists>p. 0 \<le> p \<and> round_binary64 (t * 1000) = Finite p"
    then obtain p where p: "0 \<le> p" "round_binary64 (t * 1000) = Finite p"
      by blast
    show thesis
    proof (rule finite)
      show "fmul (Finite t) (Finite 1000) = Finite p" using p(2) by simp
      show "0 \<le> p" by (rule p(1))
      show "\<bar>p - t * 1000\<bar> \<le> max (t * 1000 / 2 ^ 53) (pow2 (- 1075))"
        by (rule round_binary64_near [OF t p(2)])
    qed
  qed
qed

lemma round_binary64_1020: "round_binary64 (2 ^ 1020 * 1000) = PosInf"
proof (rule round_binary64_overflow)
  have "pow2 1024 = 2 ^ 1020 * 16"
    by (simp add: pow2_def)
  then show "pow2 1024 \<le> 2 ^ 1020 * 1000"
    by simp
qed

text \<open>
  C1, as stated, fails for a large non-negative number of seconds: at \<open>2.0 ** 1020\<close>
  the product \<open>seconds * 1000.0\<close> is the float infinity, \<open>round\<close> raises
  \<open>OverflowError\<close> and no string is returned.
\<close>

theorem format_timestamp_overflow:
  "format_timestamp (Finite (2 ^ 1020)) False (ascii ''.'') = Inl OverflowError
   \<and> format_timestamp PosInf False (ascii ''.'') = Inl OverflowError"
proof
  have "fmul (Finite (2 ^ 1020)) (Finite 1000) = PosInf"
    unfolding fmul.simps by (rule round_binary64_1020)
  then have "round_float (fmul (Finite (2 ^ 1020)) (Finite 1000)) = Inl OverflowError"
    by (simp only: round_float.simps)
  then show "format_timestamp (Finite (2 ^ 1020)) False (ascii ''.'') = Inl OverflowError"
    by (rule format_timestamp_raises)
  show "format_timestamp PosInf False (ascii ''.'') = Inl OverflowError"
    by (rule format_timestamp_raises) simp
qed

text \<open>
  C1, amended. For a finite \<open>seconds \<ge> 0\<close>, either the binary64 product
  \<open>seconds * 1000.0\<close> is infinite and \<open>format_timestamp\<close> raises \<open>OverflowError\<close>
  (this happens whenever the exact product reaches \<open>2 ^ 1024\<close>), or the product is a
  finite float \<open>p \<ge> 0\<close>, within half a unit in the last place of the exact product.
  Then the milliseconds are \<open>p\<close> rounded to the nearest integer, halves to the even
  one; they are split into hours, minutes, seconds and milliseconds; minutes and
  seconds are written with two digits, milliseconds with three and hours with at least
  two, and the hours and their colon are left out exactly when the hours are 0 and
  \<open>always_include_hours\<close> is false. \<open>format_timestamp(0)\<close> is \<open>00:00.000\<close> and
  \<open>format_timestamp(3661.5, always_include_hours=True)\<close> is \<open>01:01:01.500\<close>.
\<close>

theorem format_timestamp_layout:
  "(0 \<le> t \<longrightarrow>
      (fmul (Finite t) (Finite 1000) = PosInf
       \<and> format_timestamp (Finite t) always_include_hours decimal_marker = Inl OverflowError)
      \<or> (\<exists>p. fmul (Finite t) (Finite 1000) = Finite p \<and> 0 \<le> p
             \<and> \<bar>p - t * 1000\<bar> \<le> max (t * 1000 / 2 ^ 53) (pow2 (- 1075))
             \<and> (let ms = py_round p; h = ms div 3600000; m = ms div 60000 mod 60;
                     s = ms div 1000 mod 60; f = ms mod 1000
                 in 0 \<le> ms \<and> \<bar>real_of_int ms - p\<bar> \<le> 1 / 2
                    \<and> ms = h * 3600000 + m * 60000 + s * 1000 + f
                    \<and> format_timestamp (Finite t) always_include_hours decimal_marker =
                        Inr ((if always_include_hours \<or> 0 < h
                              then (if h < 10 then [48, 48 + nat h] else digits (nat h)) @ [58]
                              else [])
                             @ [48 + nat m div 10, 48 + nat m mod 10, 58,
                                48 + nat s div 10, 48 + nat s mod 10]
                             @ decimal_marker
                             @ [48 + nat f div 100, 48 + nat f div 10 mod 10,
                                48 + nat f mod 10]))))
   \<and> (pow2 1024 \<le> t * 1000 \<longrightarrow>
        format_timestamp (Finite t) always_include_hours decimal_marker = Inl OverflowError)
   \<and> format_timestamp (Finite 0) False (ascii ''.'') = Inr (ascii ''00:00.000'')
   \<and> format_timestamp (Finite 3661.5) True (ascii ''.'') = Inr (ascii ''01:01:01.500'')"
proof (intro conjI impI)
  assume t: "0 \<le> t"
  show "(fmul (Finite t) (Finite 1000) = PosInf
       \<and> format_timestamp (Finite t) always_include_hours decimal_marker = Inl OverflowError)
      \<or> (\<exists>p. fmul (Finite t) (Finite 1000) = Finite p \<and> 0 \<le> p
             \<and> \<bar>p - t * 1000\<bar> \<le> max (t * 1000 / 2 ^ 53) (pow2 (- 1075))
             \<and> (let ms = py_round p; h = ms div 3600000; m = ms div 60000 mod 60;
                     s = ms div 1000 mod 60; f = ms mod 1000
                 in 0 \<le> ms \<and> \<bar>real_of_int ms - p\<bar> \<le> 1 / 2
                    \<and> ms = h * 3600000 + m * 60000 + s * 1000 + f
                    \<and> format_timestamp (Finite t) always_include_hours decimal_marker =
                        Inr ((if always_include_hours \<or> 0 < h
                              then (if h < 10 then [48, 48 + nat h] else digits (nat h)) @ [58]
                              else [])
                             @ [48 + nat m div 10, 48 + nat m mod 10, 58,
                                48 + nat s div 10, 48 + nat s mod 10]
                             @ decimal_marker
                             @ [48 + nat f div 100, 48 + nat f div 10 mod 10,
                                48 + nat f mod 10])))"
  proof (rule round_ms_cases [OF t])
    assume overflow: "fmul (Finite t) (Finite 1000) = PosInf"
    then have "round_float (fmul (Finite t) (Finite 1000)) = Inl OverflowError"
      by (simp only: round_float.simps)
    then have "format_timestamp (Finite t) always_include_hours decimal_marker
        = Inl OverflowError"
      by (rule format_timestamp_raises)
    with overflow show ?thesis by (intro disjI1 conjI)
  next
    fix p
    assume finite: "fmul (Finite t) (Finite 1000) = Finite p" "0 \<le> p"
      "\<bar>p - t * 1000\<bar> \<le> max (t * 1000 / 2 ^ 53) (pow2 (- 1075))"
    have rf: "round_float (fmul (Finite t) (Finite 1000)) = Inr (py_round p)"
      by (simp only: finite(1) round_float.simps)
    have ms: "0 \<le> py_round p"
      using finite(2) by (rule py_round_nonneg)
    show ?thesis
      apply (rule disjI2)
      apply (rule exI [of _ p])
      unfolding Let_def
      using finite ms py_round_near [of p] ms_recompose [of "py_round p"]
        format_timestamp_digits [OF rf ms, of always_include_hours decimal_marker]
      by (intro conjI)
  qed
next
  assume "pow2 1024 \<le> t * 1000"
  then show "format_timestamp (Finite t) always_include_hours decimal_marker
      = Inl OverflowError"
    by (rule format_timestamp_overflows)
next
  show "format_timestamp (Finite 0) False (ascii ''.'') = Inr (ascii ''00:00.000'')"
    by (rule format_timestamp_zero)
next
  show "format_timestamp (Finite 3661.5) True (ascii ''.'') = Inr (ascii ''01:01:01.500'')"
    by (rule format_timestamp_3661)
qed

lemma fmul_5025: "fmul (Finite 5025.25) (Finite 1000) = Finite 5025250"
  by (simp add: float_simps)

theorem format_timestamp_layout_witness:
  "(0::real) \<le> 5025.25
   \<and> format_timestamp (Finite 5025.25) False (ascii '','') = Inr (ascii ''01:23:45,250'')
   \<and> pow2 1024 \<le> 2 ^ 1022 * 1000
   \<and> format_timestamp (Finite (2 ^ 1022)) True (ascii '','') = Inl OverflowError"
proof -
  have p1: "(0::real) \<le> 5025.25" by simp
  have p2: "pow2 1024 \<le> 2 ^ 1022 * 1000"
  proof -
    have "pow2 1024 = 2 ^ 1022 * 4" by (simp add: pow2_def)
    then show ?thesis by simp
  qed
  note th = format_timestamp_layout [of "5025.25" False "ascii '',''"]
  note th2 = format_timestamp_layout [of "2 ^ 1022" True "ascii '',''"]
  from th p1 fmul_5025
  have "format_timestamp (Finite 5025.25) False (ascii '','') = Inr (ascii ''01:23:45,250'')"
    by (simp add: py_round_def ascii_def)
  moreover from th2 p2
  have "format_timestamp (Finite (2 ^ 1022)) True (ascii '','') = Inl OverflowError"
    by blast
  ultimately show ?thesis
    using p1 p2 by simp
qed

lemma round_ms_360000: "round_float (fmul (Finite 360000) (Finite 1000)) = Inr 360000000"
  by (simp add: float_simps)

lemma pow2_1024_le: "pow2 1024 \<le> 2 ^ 1023 * 1000"
proof -
  have "pow2 1024 = 2 ^ 1023 * 2" by (simp add: pow2_def)
  then show ?thesis by simp
qed

text \<open>
  C2, as stated, fails at 100 hours: the hours take three digits, the string is one
  longer than \<open>HH:MM:SS.mmm\<close> and its third character is a digit, not the colon. It
  also fails at \<open>2.0 ** 1023\<close> seconds, where no string is returned at all.
\<close>

theorem format_timestamp_100_hours:
  "format_timestamp (Finite 360000) False (ascii ''.'') = Inr (ascii ''100:00:00.000'')
   \<and> length (ascii ''100:00:00.000'') = 13
   \<and> ascii ''100:00:00.000'' ! 2 = 48
   \<and> format_timestamp (Finite 360000) True (ascii '','') = Inr (ascii ''100:00:00,000'')
   \<and> format_timestamp (Finite (2 ^ 1023)) True (ascii ''.'') = Inl OverflowError"
proof (intro conjI)
  show "format_timestamp (Finite 360000) False (ascii ''.'') = Inr (ascii ''100:00:00.000'')"
    using format_timestamp_digits [OF round_ms_360000, of False "ascii ''.''"]
    by (simp add: ascii_def digits.simps)
  show "format_timestamp (Finite 360000) True (ascii '','') = Inr (ascii ''100:00:00,000'')"
    using format_timestamp_digits [OF round_ms_360000, of True "ascii '',''"]
    by (simp add: ascii_def digits.simps)
  show "length (ascii ''100:00:00.000'') = 13" by (simp add: ascii_def)
  show "ascii ''100:00:00.000'' ! 2 = 48" by (simp add: ascii_def)
  show "format_timestamp (Finite (2 ^ 1023)) True (ascii ''.'') = Inl OverflowError"
    by (rule format_timestamp_overflows [OF pow2_1024_le])
qed

lemma format_timestamp_short:
  assumes "round_float (fmul seconds (Finite 1000)) = Inr ms" "0 \<le> ms"
    "\<not> aih" "ms div 3600000 = 0"
  shows "\<exists>out. format_timestamp seconds aih dm = Inr out
      \<and> length out = 8 + length dm \<and> out ! 2 = 58 \<and> take (length dm) (drop 5 out) = dm"
  using assms(3,4) by (simp add: format_timestamp_digits [OF assms(1,2)])

lemma format_timestamp_long:
  assumes "round_float (fmul seconds (Finite 1000)) = Inr ms" "0 \<le> ms"
    "aih \<or> 0 < ms div 3600000" "ms div 3600000 < 100"
  shows "\<exists>out. format_timestamp seconds aih dm = Inr out
      \<and> length out = 11 + length dm \<and> out ! 2 = 58 \<and> out ! 5 = 58
      \<and> take (length dm) (drop 8 out) = dm"
proof -
  define h where "h = ms div 3600000"
  have h0: "0 \<le> h"
    using assms(2) by (simp add: h_def pos_imp_zdiv_nonneg_iff)
  have hh: "(if h < 10 then [48, 48 + nat h] else digits (nat h))
      = [48 + nat h div 10, 48 + nat h mod 10]"
    using format_0d_2_hours [OF h0] format_0d_2_two [OF h0] assms(4) by (simp add: h_def)
  have eq: "format_timestamp seconds aih dm =
     Inr ([48 + nat h div 10, 48 + nat h mod 10, 58,
      48 + nat (ms div 60000 mod 60) div 10,
      48 + nat (ms div 60000 mod 60) mod 10, 58,
      48 + nat (ms div 1000 mod 60) div 10,
      48 + nat (ms div 1000 mod 60) mod 10]
     @ dm
     @ [48 + nat (ms mod 1000) div 100,
        48 + nat (ms mod 1000) div 10 mod 10,
        48 + nat (ms mod 1000) mod 10])"
    using assms(3) hh unfolding format_timestamp_digits [OF assms(1,2)] h_def [symmetric]
    by simp
  show ?thesis
    unfolding eq by simp
qed

lemma format_timestamp_wide:
  assumes "round_float (fmul seconds (Finite 1000)) = Inr ms" "0 \<le> ms"
    "100 \<le> ms div 3600000"
  shows "\<exists>out tail. format_timestamp seconds aih dm = Inr out
          \<and> out = digits (nat (ms div 3600000)) @ [58] @ tail
          \<and> length tail = 8 + length dm \<and> tail ! 2 = 58
          \<and> take (length dm) (drop 5 tail) = dm
          \<and> 3 \<le> length (digits (nat (ms div 3600000)))
          \<and> 12 + length dm \<le> length out"
proof -
  define h where "h = ms div 3600000"
  define tail where "tail =
     [48 + nat (ms div 60000 mod 60) div 10,
      48 + nat (ms div 60000 mod 60) mod 10, 58,
      48 + nat (ms div 1000 mod 60) div 10,
      48 + nat (ms div 1000 mod 60) mod 10]
     @ dm
     @ [48 + nat (ms mod 1000) div 100,
        48 + nat (ms mod 1000) div 10 mod 10,
        48 + nat (ms mod 1000) mod 10]"
  have h100: "100 \<le> h" using assms(3) by (simp add: h_def)
  have eq: "format_timestamp seconds aih dm = Inr (digits (nat h) @ [58] @ tail)"
    using h100 unfolding format_timestamp_digits [OF assms(1,2)] h_def [symmetric] tail_def
    by simp
  have len: "3 \<le> length (digits (nat h))"
    using h100 by (intro digits_length_ge3) linarith
  have t1: "length tail = 8 + length dm" "tail ! 2 = 58" "take (length dm) (drop 5 tail) = dm"
    by (simp_all add: tail_def)
  have t2: "12 + length dm \<le> length (digits (nat h) @ [58] @ tail)"
    using len t1(1) by simp
  show ?thesis
    unfolding h_def [symmetric]
    apply (rule exI [of _ "digits (nat h) @ [58] @ tail"])
    apply (rule exI [of _ tail])
    using eq t1 len t2 by (intro conjI refl)
qed

text \<open>
  C2, amended. For every finite \<open>t \<ge> 0\<close> whose product \<open>t * 1000.0\<close> does not overflow
  (otherwise \<open>OverflowError\<close> is raised): below 100 hours the string has the length of
  the fixed pattern (\<open>MM:SS<marker>mmm\<close>, or \<open>HH:MM:SS<marker>mmm\<close> when the hours
  are shown), with the colons and the marker at the pattern's positions; from 100
  hours on the hours are written in full, with three digits or more, so the string is
  longer than the pattern and only the part after the hours keeps its shape.
\<close>

theorem format_timestamp_pattern:
  assumes "0 \<le> t"
  shows "(fmul (Finite t) (Finite 1000) = PosInf
          \<and> format_timestamp (Finite t) always_include_hours decimal_marker
              = Inl OverflowError)
       \<or> (\<exists>p. fmul (Finite t) (Finite 1000) = Finite p \<and> 0 \<le> p \<and>
            (let h = py_round p div 3600000; k = length decimal_marker
             in (\<not> always_include_hours \<and> h = 0 \<longrightarrow>
                   (\<exists>out. format_timestamp (Finite t) always_include_hours decimal_marker
                             = Inr out
                          \<and> length out = 8 + k \<and> out ! 2 = 58
                          \<and> take k (drop 5 out) = decimal_marker))
              \<and> ((always_include_hours \<or> 0 < h) \<and> h < 100 \<longrightarrow>
                   (\<exists>out. format_timestamp (Finite t) always_include_hours decimal_marker
                             = Inr out
                          \<and> length out = 11 + k \<and> out ! 2 = 58 \<and> out ! 5 = 58
                          \<and> take k (drop 8 out) = decimal_marker))
              \<and> (100 \<le> h \<longrightarrow>
                   (\<exists>out tail. format_timestamp (Finite t) always_include_hours decimal_marker
                                  = Inr out
                          \<and> out = digits (nat h) @ [58] @ tail \<and> length tail = 8 + k
                          \<and> tail ! 2 = 58 \<and> take k (drop 5 tail) = decimal_marker
                          \<and> 3 \<le> length (digits (nat h)) \<and> 12 + k \<le> length out))))"
proof (rule round_ms_cases [OF assms])
  assume overflow: "fmul (Finite t) (Finite 1000) = PosInf"
  then have "round_float (fmul (Finite t) (Finite 1000)) = Inl OverflowError"
    by (simp only: round_float.simps)
  then have "format_timestamp (Finite t) always_include_hours decimal_marker
      = Inl OverflowError"
    by (rule format_timestamp_raises)
  with overflow show ?thesis by (intro disjI1 conjI)
next
  fix p
  assume finite: "fmul (Finite t) (Finite 1000) = Finite p" "0 \<le> p"
  have rf: "round_float (fmul (Finite t) (Finite 1000)) = Inr (py_round p)"
    by (simp only: finite(1) round_float.simps)
  have ms: "0 \<le> py_round p"
    using finite(2) by (rule py_round_nonneg)
  show ?thesis
    apply (rule disjI2)
    apply (rule exI [of _ p])
    unfolding Let_def
  proof (intro conjI impI)
    show "fmul (Finite t) (Finite 1000) = Finite p" by (rule finite(1))
    show "0 \<le> p" by (rule finite(2))
  next
    assume a: "\<not> always_include_hours \<and> py_round p div 3600000 = 0"
    then have a1: "\<not> always_include_hours" and a2: "py_round p div 3600000 = 0"
      by simp_all
    show "\<exists>out. format_timestamp (Finite t) always_include_hours decimal_marker = Inr out
        \<and> length out = 8 + length decimal_marker \<and> out ! 2 = 58
        \<and> take (length decimal_marker) (drop 5 out) = decimal_marker"
      by (rule format_timestamp_short [OF rf ms a1 a2])
  next
    assume b: "(always_include_hours \<or> 0 < py_round p div 3600000)
      \<and> py_round p div 3600000 < 100"
    then have b1: "always_include_hours \<or> 0 < py_round p div 3600000"
      and b2: "py_round p div 3600000 < 100"
      by simp_all
    show "\<exists>out. format_timestamp (Finite t) always_include_hours decimal_marker = Inr out
        \<and> length out = 11 + length decimal_marker \<and> out ! 2 = 58 \<and> out ! 5 = 58
        \<and> take (length decimal_marker) (drop 8 out) = decimal_marker"
      by (rule format_timestamp_long [OF rf ms b1 b2])
  next
    assume c: "100 \<le> py_round p div 3600000"
    show "\<exists>out tail. format_timestamp (Finite t) always_include_hours decimal_marker = Inr out
        \<and> out = digits (nat (py_round p div 3600000)) @ [58] @ tail
        \<and> length tail = 8 + length decimal_marker
        \<and> tail ! 2 = 58 \<and> take (length decimal_marker) (drop 5 tail) = decimal_marker
        \<and> 3 \<le> length (digits (nat (py_round p div 3600000)))
        \<and> 12 + length decimal_marker \<le> length out"
      by (rule format_timestamp_wide [OF rf ms c])
  qed
qed

lemma fmul_3661: "fmul (Finite 3661.5) (Finite 1000) = Finite 3661500"
  by (simp add: float_simps)

lemma fmul_360000: "fmul (Finite 360000) (Finite 1000) = Finite 360000000"
  by (simp add: float_simps)

theorem format_timestamp_pattern_witness:
  "(0::real) \<le> 3661.5 \<and> (0::real) \<le> 360000
   \<and> (\<exists>out. format_timestamp (Finite 3661.5) False (ascii ''.'') = Inr out
         \<and> length out = 12 \<and> out ! 5 = 58)
   \<and> (\<exists>out. format_timestamp (Finite 360000) False (ascii ''.'') = Inr out
         \<and> 13 \<le> length out)"
proof -
  have p1: "(0::real) \<le> 3661.5" and p2: "(0::real) \<le> 360000"
    by simp_all
  have r1: "py_round 3661500 div 3600000 = 1"
    and r2: "py_round 360000000 div 3600000 = 100"
    by (simp_all add: py_round_def)
  have k: "length (ascii ''.'') = 1"
    by (simp add: ascii_def)
  have "\<exists>out. format_timestamp (Finite 3661.5) False (ascii ''.'') = Inr out
         \<and> length out = 12 \<and> out ! 5 = 58"
    using format_timestamp_pattern [OF p1, of False "ascii ''.''"]
    unfolding Let_def fmul_3661 k by (auto simp: r1)
  moreover have "\<exists>out. format_timestamp (Finite 360000) False (ascii ''.'') = Inr out
         \<and> 13 \<le> length out"
    using format_timestamp_pattern [OF p2, of False "ascii ''.''"]
    unfolding Let_def fmul_360000 k by (auto simp: r2)
  ultimately show ?thesis
    using p1 p2 by simp
qed

section \<open>The subtitle writers\<close>

lemma round_ms_one: "round_float (fmul (Finite 1) (Finite 1000)) = Inr 1000"
  by (simp add: float_simps)

lemma format_timestamp_cues:
  "format_timestamp (Finite 0) False (ascii ''.'') = Inr (ascii ''00:00.000'')"
  "format_timestamp (Finite 1) False (ascii ''.'') = Inr (ascii ''00:01.000'')"
  "format_timestamp (Finite 0) True (ascii '','') = Inr (ascii ''00:00:00,000'')"
  "format_timestamp (Finite 1) True (ascii '','') = Inr (ascii ''00:00:01,000'')"
  using format_timestamp_digits [OF round_ms_zero, of False "ascii ''.''"]
    format_timestamp_digits [OF round_ms_one, of False "ascii ''.''"]
    format_timestamp_digits [OF round_ms_zero, of True "ascii '',''"]
    format_timestamp_digits [OF round_ms_one, of True "ascii '',''"]
  by (simp_all add: ascii_def)

text \<open>
  C3. The WebVTT and SubRip writers are to emit no \<open>-->\<close> inside the text of a
  segment. They replace in one scan, so the text \<open>--->\<close>, whose only occurrence of
  \<open>-->\<close> starts at its second character, is written as \<open>-->\<close>: the arrow is in the
  output of both writers.
\<close>

theorem cue_text_keeps_arrow:
  "replace (strip (ascii ''--->'')) (ascii ''-->'') (ascii ''->'') = ascii ''-->''
   \<and> WriteVTT_write_result
        [\<lparr>seg_start = Finite 0, seg_end = Finite 1, seg_text = ascii ''--->''\<rparr>]
       = (ascii ''WEBVTT'' @ [10, 10] @ ascii ''00:00.000 --> 00:01.000'' @ [10]
            @ ascii ''-->'' @ [10, 10], None)
   \<and> WriteSRT_write_result
        [\<lparr>seg_start = Finite 0, seg_end = Finite 1, seg_text = ascii ''--->''\<rparr>]
       = (ascii ''1'' @ [10] @ ascii ''00:00:00,000 --> 00:00:01,000'' @ [10]
            @ ascii ''-->'' @ [10, 10], None)"
proof -
  have r: "replace (strip (ascii ''--->'')) (ascii ''-->'') (ascii ''->'') = ascii ''-->''"
    by (simp add: ascii_def replace_def replace_scan.simps strip_def py_isspace_def)
  have v: "vtt_cue \<lparr>seg_start = Finite 0, seg_end = Finite 1, seg_text = ascii ''--->''\<rparr>
      = Inr (ascii ''00:00.000'' @ ascii '' --> '' @ ascii ''00:01.000'' @ [10]
             @ ascii ''-->'' @ [10])"
    unfolding vtt_cue_def segment.select_convs format_timestamp_cues r sum.case
    by (rule refl)
  have s: "srt_cue (Suc 0) \<lparr>seg_start = Finite 0, seg_end = Finite 1, seg_text = ascii ''--->''\<rparr>
      = Inr (str_int (int (Suc 0)) @ [10] @ ascii ''00:00:00,000'' @ ascii '' --> ''
             @ ascii ''00:00:01,000'' @ [10] @ ascii ''-->'' @ [10])"
    unfolding srt_cue_def segment.select_convs format_timestamp_cues r sum.case
    by (rule refl)
  have "WriteVTT_write_result
        [\<lparr>seg_start = Finite 0, seg_end = Finite 1, seg_text = ascii ''--->''\<rparr>]
       = (ascii ''WEBVTT'' @ [10, 10] @ ascii ''00:00.000 --> 00:01.000'' @ [10]
            @ ascii ''-->'' @ [10, 10], None)"
    by (simp add: WriteVTT_write_result_def print_line_def v) (simp add: ascii_def)
  moreover have "WriteSRT_write_result
        [\<lparr>seg_start = Finite 0, seg_end = Finite 1, seg_text = ascii ''--->''\<rparr>]
       = (ascii ''1'' @ [10] @ ascii ''00:00:00,000 --> 00:00:01,000'' @ [10]
            @ ascii ''-->'' @ [10, 10], None)"
    by (simp add: WriteSRT_write_result_def print_line_def s)
       (simp add: ascii_def str_int_def digits.simps)
  ultimately show ?thesis
    using r by simp
qed

lemma replace_scan_single:
  "replace_scan [a] [b] s = map (\<lambda>c. if c = a then b else c) s"
proof (induction s)
  case Nil
  show ?case by (simp add: replace_scan.simps [of _ _ "[]"])
next
  case (Cons x xs)
  have "replace_scan [a] [b] (x # xs) =
      (if x = a then [b] @ replace_scan [a] [b] xs else x # replace_scan [a] [b] xs)"
    by (subst replace_scan.simps) simp
  then show ?case
    by (simp add: Cons.IH)
qed

lemma replace_tab:
  "replace s [9] (ascii '' '') = map (\<lambda>c. if c = 9 then 32 else c) s"
  by (simp add: replace_def ascii_def replace_scan_single)

lemma no_tab_in_digits: "9 \<notin> set (digits n)"
  using digits_range [of 9 n] by auto

lemma str_int_nonneg: "0 \<le> x \<Longrightarrow> str_int x = digits (nat x)"
  by (simp add: str_int_def)

lemma no_tab_in_str_int: "9 \<notin> set (str_int x)"
  by (simp add: str_int_def no_tab_in_digits)

lemma for_each_ok:
  "\<forall>x \<in> set xs. snd (body x) = None \<Longrightarrow>
   for_each body xs = (concat (map (\<lambda>x. fst (body x)) xs), None)"
proof (induction xs)
  case Nil
  show ?case by simp
next
  case (Cons x xs)
  then have "snd (body x) = None" by simp
  then have b: "body x = (fst (body x), None)"
    by (metis prod.collapse)
  from Cons have "for_each body xs = (concat (map (\<lambda>x. fst (body x)) xs), None)"
    by simp
  then show ?case
    by (subst for_each.simps, subst b) simp
qed

lemma for_each_raises:
  "x \<in> set xs \<Longrightarrow> snd (body x) \<noteq> None \<Longrightarrow> \<exists>w e. for_each body xs = (w, Some e)"
proof (induction xs)
  case Nil
  then show ?case by simp
next
  case (Cons y ys)
  show ?case
  proof (cases "snd (body y)")
    case (Some e)
    then have b: "body y = (fst (body y), Some e)"
      by (metis prod.collapse)
    show ?thesis
      by (subst for_each.simps, subst b) simp
  next
    case None
    then have b: "body y = (fst (body y), None)"
      by (metis prod.collapse)
    from None Cons.prems have "x \<in> set ys" by auto
    from Cons.IH [OF this Cons.prems(2)]
    obtain w e where "for_each body ys = (w, Some e)" by blast
    then show ?thesis
      by (subst for_each.simps, subst b) simp
  qed
qed

lemma tsv_row_finite:
  assumes "is_finite (fmul (Finite 1000) (seg_start g))"
    "is_finite (fmul (Finite 1000) (seg_end g))"
  shows "tsv_row g =
     (str_int (py_round (float_value (fmul (Finite 1000) (seg_start g)))) @ [9]
      @ str_int (py_round (float_value (fmul (Finite 1000) (seg_end g)))) @ [9]
      @ map (\<lambda>c. if c = 9 then 32 else c) (strip (seg_text g)) @ [10], None)"
proof -
  from assms obtain p q where
    p: "fmul (Finite 1000) (seg_start g) = Finite p"
    and q: "fmul (Finite 1000) (seg_end g) = Finite q"
    by (metis is_finite.elims(2))
  show ?thesis
    unfolding tsv_row_def p q replace_tab by simp
qed

lemma round_float_raises: "\<not> is_finite x \<Longrightarrow> \<exists>e. round_float x = Inl e"
  by (cases x) simp_all

lemma round_float_returns: "is_finite x \<Longrightarrow> round_float x = Inr (py_round (float_value x))"
  by (cases x) simp_all

lemma tsv_row_raises:
  assumes "\<not> is_finite (fmul (Finite 1000) (seg_start g))
         \<or> \<not> is_finite (fmul (Finite 1000) (seg_end g))"
  shows "snd (tsv_row g) \<noteq> None"
proof (cases "is_finite (fmul (Finite 1000) (seg_start g))")
  case False
  from round_float_raises [OF this] obtain e where
    "round_float (fmul (Finite 1000) (seg_start g)) = Inl e" by blast
  then show ?thesis by (simp add: tsv_row_def)
next
  case True
  with assms have "\<not> is_finite (fmul (Finite 1000) (seg_end g))" by simp
  from round_float_raises [OF this] obtain e where
    "round_float (fmul (Finite 1000) (seg_end g)) = Inl e" by blast
  then show ?thesis
    using round_float_returns [OF True] by (simp add: tsv_row_def)
qed

lemma tsv_row_raises_start:
  "round_float (fmul (Finite 1000) (seg_start g)) = Inl e \<Longrightarrow> tsv_row g = ([], Some e)"
  by (simp add: tsv_row_def)

lemma fmul_1000_cases:
  assumes "0 \<le> s"
  obtains (overflow) "fmul (Finite 1000) (Finite s) = PosInf"
  | (finite) p where "fmul (Finite 1000) (Finite s) = Finite p" "0 \<le> p"
      "\<bar>p - 1000 * s\<bar> \<le> max (1000 * s / 2 ^ 53) (pow2 (- 1075))"
proof (rule round_ms_cases [OF assms])
  assume "fmul (Finite s) (Finite 1000) = PosInf"
  then show thesis by (intro overflow) (simp add: mult.commute)
next
  fix p
  assume "fmul (Finite s) (Finite 1000) = Finite p" "0 \<le> p"
    "\<bar>p - s * 1000\<bar> \<le> max (s * 1000 / 2 ^ 53) (pow2 (- 1075))"
  then show thesis by (intro finite [of p]) (simp_all add: mult.commute)
qed

lemma tsv_ms_nonneg:
  assumes "x = Finite s" "0 \<le> s"
  shows "0 \<le> py_round (float_value (fmul (Finite 1000) x))"
    and "str_int (py_round (float_value (fmul (Finite 1000) x)))
       = digits (nat (py_round (float_value (fmul (Finite 1000) x))))"
    and "is_finite (fmul (Finite 1000) x) \<longrightarrow>
         \<bar>float_value (fmul (Finite 1000) x) - 1000 * s\<bar>
           \<le> max (1000 * s / 2 ^ 53) (pow2 (- 1075))"
proof -
  have a: "0 \<le> py_round (float_value (fmul (Finite 1000) (Finite s)))
    \<and> (is_finite (fmul (Finite 1000) (Finite s)) \<longrightarrow>
         \<bar>float_value (fmul (Finite 1000) (Finite s)) - 1000 * s\<bar>
           \<le> max (1000 * s / 2 ^ 53) (pow2 (- 1075)))"
  proof (rule fmul_1000_cases [OF assms(2)])
    assume o: "fmul (Finite 1000) (Finite s) = PosInf"
    show ?thesis unfolding o by (simp add: py_round_def)
  next
    fix p
    assume p: "fmul (Finite 1000) (Finite s) = Finite p" "0 \<le> p"
      "\<bar>p - 1000 * s\<bar> \<le> max (1000 * s / 2 ^ 53) (pow2 (- 1075))"
    show ?thesis unfolding p(1) using p(2,3) py_round_nonneg [OF p(2)] by simp
  qed
  from a show n: "0 \<le> py_round (float_value (fmul (Finite 1000) x))"
    unfolding assms(1) by (rule conjunct1)
  from n show "str_int (py_round (float_value (fmul (Finite 1000) x)))
       = digits (nat (py_round (float_value (fmul (Finite 1000) x))))"
    by (rule str_int_nonneg)
  from a show "is_finite (fmul (Finite 1000) x) \<longrightarrow>
         \<bar>float_value (fmul (Finite 1000) x) - 1000 * s\<bar>
           \<le> max (1000 * s / 2 ^ 53) (pow2 (- 1075))"
    unfolding assms(1) by (rule conjunct2)
qed

lemma round_ms_1020: "round_float (fmul (Finite 1000) (Finite (2 ^ 1020))) = Inl OverflowError"
proof -
  have "pow2 1024 = 16 * 2 ^ 1020"
    by (simp add: pow2_def)
  then have "pow2 1024 \<le> 1000 * 2 ^ 1020"
    by simp
  then have "round_binary64 (1000 * 2 ^ 1020) = PosInf"
    by (rule round_binary64_overflow)
  then have "fmul (Finite 1000) (Finite (2 ^ 1020)) = PosInf"
    by (simp only: fmul.simps)
  then show ?thesis
    by (simp only: round_float.simps)
qed

text \<open>
  C7, as stated, fails for a segment whose start is large: at \<open>start = 2.0 ** 1020\<close>
  the product \<open>1000 * start\<close> is the float infinity, \<open>round\<close> raises
  \<open>OverflowError\<close>, and the file holds the header and no row for the segment. The
  same happens for a start that is itself the float infinity.
\<close>

theorem WriteTSV_overflow:
  "WriteTSV_write_result
     [\<lparr>seg_start = Finite (2 ^ 1020), seg_end = Finite (2 ^ 1020), seg_text = ascii ''a''\<rparr>]
     = (ascii ''start'' @ [9] @ ascii ''end'' @ [9] @ ascii ''text'' @ [10], Some OverflowError)
   \<and> WriteTSV_write_result
     [\<lparr>seg_start = PosInf, seg_end = PosInf, seg_text = ascii ''a''\<rparr>]
     = (ascii ''start'' @ [9] @ ascii ''end'' @ [9] @ ascii ''text'' @ [10], Some OverflowError)"
proof
  have "tsv_row \<lparr>seg_start = Finite (2 ^ 1020), seg_end = Finite (2 ^ 1020),
        seg_text = ascii ''a''\<rparr> = ([], Some OverflowError)"
    by (rule tsv_row_raises_start) (simp only: segment.select_convs round_ms_1020)
  then show "WriteTSV_write_result
     [\<lparr>seg_start = Finite (2 ^ 1020), seg_end = Finite (2 ^ 1020), seg_text = ascii ''a''\<rparr>]
     = (ascii ''start'' @ [9] @ ascii ''end'' @ [9] @ ascii ''text'' @ [10], Some OverflowError)"
    unfolding WriteTSV_write_result_def for_each.simps by (simp only: prod.case option.case append_Nil2)
  have "tsv_row \<lparr>seg_start = PosInf, seg_end = PosInf, seg_text = ascii ''a''\<rparr>
      = ([], Some OverflowError)"
    by (rule tsv_row_raises_start) simp
  then show "WriteTSV_write_result
     [\<lparr>seg_start = PosInf, seg_end = PosInf, seg_text = ascii ''a''\<rparr>]
     = (ascii ''start'' @ [9] @ ascii ''end'' @ [9] @ ascii ''text'' @ [10], Some OverflowError)"
    unfolding WriteTSV_write_result_def for_each.simps by (simp only: prod.case option.case append_Nil2)
qed

text \<open>
  C7, amended. When the binary64 products \<open>1000 * start\<close> and \<open>1000 * end\<close> of
  every segment are finite, the TSV writer emits the header \<open>start\tend\ttext\<close> and
  then, for every segment, one row: the first product rounded to the nearest integer
  (halves to the even one), a tab, the second product rounded, a tab, and the stripped
  text with every tab replaced by one space. No tab is left inside a number or inside
  the text. For a finite \<open>start \<ge> 0\<close> (and likewise \<open>end\<close>) the number is a
  non-negative integer written in decimal digits, and the product, when finite, is
  within half a unit in the last place of the exact product. When a product of some
  segment is not finite (it is infinite whenever the exact product reaches
  \<open>2 ^ 1024\<close>), the writer raises instead of finishing the rows.
\<close>

theorem WriteTSV_rows:
  "((\<forall>g \<in> set segments. is_finite (fmul (Finite 1000) (seg_start g))
                         \<and> is_finite (fmul (Finite 1000) (seg_end g))) \<longrightarrow>
      WriteTSV_write_result segments =
        (ascii ''start'' @ [9] @ ascii ''end'' @ [9] @ ascii ''text'' @ [10]
         @ concat (map (\<lambda>g. str_int (py_round (float_value (fmul (Finite 1000) (seg_start g))))
                            @ [9]
                            @ str_int (py_round (float_value (fmul (Finite 1000) (seg_end g))))
                            @ [9]
                            @ map (\<lambda>c. if c = 9 then 32 else c) (strip (seg_text g)) @ [10])
                    segments),
         None))
   \<and> (\<forall>g \<in> set segments.
         9 \<notin> set (map (\<lambda>c. if c = 9 then 32 else c) (strip (seg_text g)))
         \<and> 9 \<notin> set (str_int (py_round (float_value (fmul (Finite 1000) (seg_start g)))))
         \<and> 9 \<notin> set (str_int (py_round (float_value (fmul (Finite 1000) (seg_end g)))))
         \<and> (\<forall>s. seg_start g = Finite s \<and> 0 \<le> s \<longrightarrow>
               0 \<le> py_round (float_value (fmul (Finite 1000) (seg_start g)))
               \<and> str_int (py_round (float_value (fmul (Finite 1000) (seg_start g))))
                   = digits (nat (py_round (float_value (fmul (Finite 1000) (seg_start g)))))
               \<and> (is_finite (fmul (Finite 1000) (seg_start g)) \<longrightarrow>
                    \<bar>float_value (fmul (Finite 1000) (seg_start g)) - 1000 * s\<bar>
                      \<le> max (1000 * s / 2 ^ 53) (pow2 (- 1075))))
         \<and> (\<forall>s. seg_end g = Finite s \<and> 0 \<le> s \<longrightarrow>
               0 \<le> py_round (float_value (fmul (Finite 1000) (seg_end g)))
               \<and> str_int (py_round (float_value (fmul (Finite 1000) (seg_end g))))
                   = digits (nat (py_round (float_value (fmul (Finite 1000) (seg_end g)))))
               \<and> (is_finite (fmul (Finite 1000) (seg_end g)) \<longrightarrow>
                    \<bar>float_value (fmul (Finite 1000) (seg_end g)) - 1000 * s\<bar>
                      \<le> max (1000 * s / 2 ^ 53) (pow2 (- 1075)))))
   \<and> ((\<exists>g \<in> set segments. \<not> is_finite (fmul (Finite 1000) (seg_start g))
                         \<or> \<not> is_finite (fmul (Finite 1000) (seg_end g))) \<longrightarrow>
        (\<exists>w e. WriteTSV_write_result segments = (w, Some e)))
   \<and> (pow2 1024 \<le> 1000 * x \<longrightarrow> fmul (Finite 1000) (Finite x) = PosInf)"
proof (intro conjI ballI allI impI)
  assume fin: "\<forall>g \<in> set segments. is_finite (fmul (Finite 1000) (seg_start g))
                         \<and> is_finite (fmul (Finite 1000) (seg_end g))"
  have rows: "\<forall>g \<in> set segments. tsv_row g =
     (str_int (py_round (float_value (fmul (Finite 1000) (seg_start g)))) @ [9]
      @ str_int (py_round (float_value (fmul (Finite 1000) (seg_end g)))) @ [9]
      @ map (\<lambda>c. if c = 9 then 32 else c) (strip (seg_text g)) @ [10], None)"
    using fin tsv_row_finite by blast
  then have ok: "\<forall>g \<in> set segments. snd (tsv_row g) = None"
    by simp
  have m: "map (\<lambda>g. fst (tsv_row g)) segments
      = map (\<lambda>g. str_int (py_round (float_value (fmul (Finite 1000) (seg_start g)))) @ [9]
            @ str_int (py_round (float_value (fmul (Finite 1000) (seg_end g)))) @ [9]
            @ map (\<lambda>c. if c = 9 then 32 else c) (strip (seg_text g)) @ [10]) segments"
    using rows by (intro map_cong refl) simp
  show "WriteTSV_write_result segments =
        (ascii ''start'' @ [9] @ ascii ''end'' @ [9] @ ascii ''text'' @ [10]
         @ concat (map (\<lambda>g. str_int (py_round (float_value (fmul (Finite 1000) (seg_start g))))
                            @ [9]
                            @ str_int (py_round (float_value (fmul (Finite 1000) (seg_end g))))
                            @ [9]
                            @ map (\<lambda>c. if c = 9 then 32 else c) (strip (seg_text g)) @ [10])
                    segments),
         None)"
    unfolding WriteTSV_write_result_def for_each_ok [OF ok] m by simp
next
  fix g
  show "9 \<notin> set (map (\<lambda>c. if c = 9 then 32 else c) (strip (seg_text g)))"
    by auto
  show "9 \<notin> set (str_int (py_round (float_value (fmul (Finite 1000) (seg_start g)))))"
    by (rule no_tab_in_str_int)
  show "9 \<notin> set (str_int (py_round (float_value (fmul (Finite 1000) (seg_end g)))))"
    by (rule no_tab_in_str_int)
next
  fix g s
  assume "seg_start g = Finite s \<and> 0 \<le> s"
  then have a: "seg_start g = Finite s" "0 \<le> s" by simp_all
  show "0 \<le> py_round (float_value (fmul (Finite 1000) (seg_start g)))"
    by (rule tsv_ms_nonneg(1) [OF a])
  show "str_int (py_round (float_value (fmul (Finite 1000) (seg_start g))))
      = digits (nat (py_round (float_value (fmul (Finite 1000) (seg_start g)))))"
    by (rule tsv_ms_nonneg(2) [OF a])
  assume "is_finite (fmul (Finite 1000) (seg_start g))"
  with tsv_ms_nonneg(3) [OF a]
  show "\<bar>float_value (fmul (Finite 1000) (seg_start g)) - 1000 * s\<bar>
      \<le> max (1000 * s / 2 ^ 53) (pow2 (- 1075))"
    by (rule mp)
next
  fix g s
  assume "seg_end g = Finite s \<and> 0 \<le> s"
  then have a: "seg_end g = Finite s" "0 \<le> s" by simp_all
  show "0 \<le> py_round (float_value (fmul (Finite 1000) (seg_end g)))"
    by (rule tsv_ms_nonneg(1) [OF a])
  show "str_int (py_round (float_value (fmul (Finite 1000) (seg_end g))))
      = digits (nat (py_round (float_value (fmul (Finite 1000) (seg_end g)))))"
    by (rule tsv_ms_nonneg(2) [OF a])
  assume "is_finite (fmul (Finite 1000) (seg_end g))"
  with tsv_ms_nonneg(3) [OF a]
  show "\<bar>float_value (fmul (Finite 1000) (seg_end g)) - 1000 * s\<bar>
      \<le> max (1000 * s / 2 ^ 53) (pow2 (- 1075))"
    by (rule mp)
next
  assume "\<exists>g \<in> set segments. \<not> is_finite (fmul (Finite 1000) (seg_start g))
                         \<or> \<not> is_finite (fmul (Finite 1000) (seg_end g))"
  then obtain g where g: "g \<in> set segments"
    "\<not> is_finite (fmul (Finite 1000) (seg_start g))
       \<or> \<not> is_finite (fmul (Finite 1000) (seg_end g))"
    by blast
  from for_each_raises [of g segments tsv_row, OF g(1) tsv_row_raises [OF g(2)]]
  obtain w e where "for_each tsv_row segments = (w, Some e)" by blast
  then show "\<exists>w e. WriteTSV_write_result segments = (w, Some e)"
    by (simp add: WriteTSV_write_result_def)
next
  assume "pow2 1024 \<le> 1000 * x"
  then have "round_binary64 (1000 * x) = PosInf"
    by (rule round_binary64_overflow)
  then show "fmul (Finite 1000) (Finite x) = PosInf"
    by (simp only: fmul.simps)
qed

lemma fmul_tsv:
  "fmul (Finite 1000) (Finite 0) = Finite 0"
  "fmul (Finite 1000) (Finite (3 / 2)) = Finite 1500"
  "fmul (Finite 1000) (Finite (9 / 4)) = Finite 2250"
  by (simp_all add: float_simps)

theorem WriteTSV_rows_witness:
  "WriteTSV_write_result
     [\<lparr>seg_start = Finite 0, seg_end = Finite 1.5, seg_text = [32, 97, 9, 98, 9]\<rparr>,
      \<lparr>seg_start = Finite 1.5, seg_end = Finite 2.25, seg_text = ascii ''c d''\<rparr>]
   = (ascii ''start'' @ [9] @ ascii ''end'' @ [9] @ ascii ''text'' @ [10]
      @ ascii ''0'' @ [9] @ ascii ''1500'' @ [9] @ ascii ''a b'' @ [10]
      @ ascii ''1500'' @ [9] @ ascii ''2250'' @ [9] @ ascii ''c d'' @ [10], None)
   \<and> is_finite (fmul (Finite 1000) (Finite 1.5))
   \<and> (0::real) \<le> 1.5
   \<and> \<not> is_finite (fmul (Finite 1000) PosInf)
   \<and> (\<exists>w e. WriteTSV_write_result
         [\<lparr>seg_start = Finite 0, seg_end = PosInf, seg_text = ascii ''a''\<rparr>] = (w, Some e))"
proof -
  note th = WriteTSV_rows [of "[\<lparr>seg_start = Finite 0, seg_end = Finite 1.5,
        seg_text = [32, 97, 9, 98, 9]\<rparr>,
      \<lparr>seg_start = Finite 1.5, seg_end = Finite 2.25, seg_text = ascii ''c d''\<rparr>]"]
  note th2 = WriteTSV_rows [of "[\<lparr>seg_start = Finite 0, seg_end = PosInf,
        seg_text = ascii ''a''\<rparr>]"]
  have a: "WriteTSV_write_result
     [\<lparr>seg_start = Finite 0, seg_end = Finite 1.5, seg_text = [32, 97, 9, 98, 9]\<rparr>,
      \<lparr>seg_start = Finite 1.5, seg_end = Finite 2.25, seg_text = ascii ''c d''\<rparr>]
   = (ascii ''start'' @ [9] @ ascii ''end'' @ [9] @ ascii ''text'' @ [10]
      @ ascii ''0'' @ [9] @ ascii ''1500'' @ [9] @ ascii ''a b'' @ [10]
      @ ascii ''1500'' @ [9] @ ascii ''2250'' @ [9] @ ascii ''c d'' @ [10], None)"
    using th
    by (simp del: fmul.simps add: fmul_tsv py_round_def ascii_def str_int_def digits.simps
        strip_def py_isspace_def)
  have inf: "fmul (Finite 1000) PosInf = PosInf"
    by simp
  have b: "\<exists>w e. WriteTSV_write_result
         [\<lparr>seg_start = Finite 0, seg_end = PosInf, seg_text = ascii ''a''\<rparr>] = (w, Some e)"
    using th2 by (simp del: fmul.simps add: fmul_tsv inf)
  have c: "is_finite (fmul (Finite 1000) (Finite 1.5))"
    by (simp del: fmul.simps add: fmul_tsv)
  from a b c show ?thesis
    by simp
qed

section \<open>The metadata extractor\<close>

lemma loop_body_fixed:
  "md_pages (loop_body H md item) = md_pages md"
  "md_kind (loop_body H md item) = md_kind md"
  by (simp_all add: loop_body_def Let_def split: option.split sum.split)

lemma foldl_loop_body_fixed:
  "md_pages (foldl (loop_body H) md items) = md_pages md
   \<and> md_kind (foldl (loop_body H) md items) = md_kind md"
  by (induction items arbitrary: md) (simp_all add: loop_body_fixed)

lemma key_literals:
  "ascii ''Author'' \<noteq> ascii ''Title''" "ascii ''Author'' \<noteq> ascii ''Keywords''"
  "ascii ''Author'' \<noteq> ascii ''CreationDate''" "ascii ''Author'' \<noteq> ascii ''ModDate''"
  "ascii ''Title'' \<noteq> ascii ''Keywords''" "ascii ''Title'' \<noteq> ascii ''CreationDate''"
  "ascii ''Title'' \<noteq> ascii ''ModDate''" "ascii ''Keywords'' \<noteq> ascii ''CreationDate''"
  "ascii ''Keywords'' \<noteq> ascii ''ModDate''" "ascii ''CreationDate'' \<noteq> ascii ''ModDate''"
  by (simp_all add: ascii_def)

lemma loop_body_authors:
  "md_authors (loop_body H md (k, v)) =
     (if k = ascii ''Author''
      then (case Option.bind (decode v)
                  (\<lambda>s. if strip s = [] then None else Some (map strip (py_split (strip s) 59))) of
              None \<Rightarrow> md_authors md | Some a \<Rightarrow> Some a)
      else md_authors md)"
  using key_literals
  by (simp add: loop_body_def Let_def split: option.split sum.split)

lemma loop_body_title:
  "md_title (loop_body H md (k, v)) =
     (if k = ascii ''Title''
      then (case Option.bind (decode v) (\<lambda>s. if strip s = [] then None else Some (strip s)) of
              None \<Rightarrow> md_title md | Some a \<Rightarrow> Some a)
      else md_title md)"
  using key_literals
  by (simp add: loop_body_def Let_def split: option.split sum.split)

lemma loop_body_keywords:
  "md_keywords (loop_body H md (k, v)) =
     (if k = ascii ''Keywords''
      then (case Option.bind (decode v)
                  (\<lambda>s. if strip s = [] then None else Some (map strip (py_split (strip s) 44))) of
              None \<Rightarrow> md_keywords md | Some a \<Rightarrow> Some a)
      else md_keywords md)"
  using key_literals
  by (simp add: loop_body_def Let_def split: option.split sum.split)

lemma loop_body_createdAt:
  "md_createdAt (loop_body H md (k, v)) =
     (if k = ascii ''CreationDate''
      then (case Option.bind (decode v)
                  (\<lambda>s. case to_date H s of Inr (Some d) \<Rightarrow> Some (isoformat d) | _ \<Rightarrow> None) of
              None \<Rightarrow> md_createdAt md | Some a \<Rightarrow> Some a)
      else md_createdAt md)"
  using key_literals
  by (simp add: loop_body_def Let_def split: option.split sum.split)

lemma loop_body_updatedAt:
  "md_updatedAt (loop_body H md (k, v)) =
     (if k = ascii ''ModDate''
      then (case Option.bind (decode v)
                  (\<lambda>s. case to_date H s of Inr (Some d) \<Rightarrow> Some (isoformat d) | _ \<Rightarrow> None) of
              None \<Rightarrow> md_updatedAt md | Some a \<Rightarrow> Some a)
      else md_updatedAt md)"
  using key_literals
  by (simp add: loop_body_def Let_def split: option.split sum.split)

lemma foldl_field:
  fixes f :: "'m \<Rightarrow> 'a option"
  assumes step: "\<And>md k v. f (step md (k, v)) =
      (if k = key then (case g v of None \<Rightarrow> f md | Some a \<Rightarrow> Some a) else f md)"
    and dist: "distinct (map fst items)"
  shows "f (foldl step md items) =
     (case map_of items key of
        None \<Rightarrow> f md
      | Some v \<Rightarrow> (case g v of None \<Rightarrow> f md | Some a \<Rightarrow> Some a))"
  using dist
proof (induction items arbitrary: md)
  case Nil
  show ?case by simp
next
  case (Cons item items)
  obtain k v where item: "item = (k, v)" by (cases item)
  from Cons.prems have d: "distinct (map fst items)" and k: "k \<notin> fst ` set items"
    by (simp_all add: item)
  show ?case
  proof (cases "k = key")
    case True
    with k have "map_of items key = None"
      by (simp add: map_of_eq_None_iff)
    with True show ?thesis
      by (simp add: item Cons.IH [OF d] step)
  next
    case False
    then have "f (step md (k, v)) = f md"
      by (simp add: step)
    with False show ?thesis
      by (simp add: item Cons.IH [OF d] split: option.split)
  qed
qed

lemma foldl_field_bind:
  fixes f :: "'m \<Rightarrow> 'a option"
  assumes step: "\<And>md k v. f (step md (k, v)) =
      (if k = key then (case g v of None \<Rightarrow> f md | Some a \<Rightarrow> Some a) else f md)"
    and dist: "distinct (map fst items)"
    and init: "f md = None"
  shows "f (foldl step md items) = Option.bind (map_of items key) g"
  unfolding foldl_field [where f = f, OF step dist] init
  by (simp split: option.split)

lemma get_document_metadata_items:
  "info doc = items # rest \<Longrightarrow>
   get_document_metadata H doc n =
     foldl (loop_body H)
       \<lparr>md_kind = ascii ''text'', md_pages = n, md_authors = None, md_title = None,
        md_keywords = None, md_createdAt = None, md_updatedAt = None\<rparr> items"
  by (simp add: get_document_metadata_def)

lemma get_document_metadata_authors:
  assumes "info doc = items # rest" "distinct (map fst items)"
  shows "md_authors (get_document_metadata H doc n) =
     Option.bind (map_of items (ascii ''Author''))
       (\<lambda>v. Option.bind (decode v)
          (\<lambda>s. if strip s = [] then None else Some (map strip (py_split (strip s) 59))))"
  unfolding get_document_metadata_items [OF assms(1)]
  by (rule foldl_field_bind [where f = md_authors, OF loop_body_authors assms(2)]) simp

lemma get_document_metadata_title:
  assumes "info doc = items # rest" "distinct (map fst items)"
  shows "md_title (get_document_metadata H doc n) =
     Option.bind (map_of items (ascii ''Title''))
       (\<lambda>v. Option.bind (decode v) (\<lambda>s. if strip s = [] then None else Some (strip s)))"
  unfolding get_document_metadata_items [OF assms(1)]
  by (rule foldl_field_bind [where f = md_title, OF loop_body_title assms(2)]) simp

lemma get_document_metadata_keywords:
  assumes "info doc = items # rest" "distinct (map fst items)"
  shows "md_keywords (get_document_metadata H doc n) =
     Option.bind (map_of items (ascii ''Keywords''))
       (\<lambda>v. Option.bind (decode v)
          (\<lambda>s. if strip s = [] then None else Some (map strip (py_split (strip s) 44))))"
  unfolding get_document_metadata_items [OF assms(1)]
  by (rule foldl_field_bind [where f = md_keywords, OF loop_body_keywords assms(2)]) simp

lemma get_document_metadata_createdAt:
  assumes "info doc = items # rest" "distinct (map fst items)"
  shows "md_createdAt (get_document_metadata H doc n) =
     Option.bind (map_of items (ascii ''CreationDate''))
       (\<lambda>v. Option.bind (decode v)
          (\<lambda>s. case to_date H s of Inr (Some d) \<Rightarrow> Some (isoformat d) | _ \<Rightarrow> None))"
  unfolding get_document_metadata_items [OF assms(1)]
  by (rule foldl_field_bind [where f = md_createdAt, OF loop_body_createdAt assms(2)]) simp

lemma get_document_metadata_updatedAt:
  assumes "info doc = items # rest" "distinct (map fst items)"
  shows "md_updatedAt (get_document_metadata H doc n) =
     Option.bind (map_of items (ascii ''ModDate''))
       (\<lambda>v. Option.bind (decode v)
          (\<lambda>s. case to_date H s of Inr (Some d) \<Rightarrow> Some (isoformat d) | _ \<Rightarrow> None))"
  unfolding get_document_metadata_items [OF assms(1)]
  by (rule foldl_field_bind [where f = md_updatedAt, OF loop_body_updatedAt assms(2)]) simp

lemma get_document_metadata_fixed:
  "md_pages (get_document_metadata H doc n) = n"
  "md_kind (get_document_metadata H doc n) = ascii ''text''"
  by (cases "info doc"; simp add: get_document_metadata_def Let_def foldl_loop_body_fixed)+

text \<open>
  C4. The record returned always holds \<open>properties.attrs.pages\<close> (and
  \<open>properties.kind\<close>), and each of the five optional fields is decided by the value
  stored under its own key alone: it is present exactly when that value decodes and
  yields a result, whatever the values under the other keys are and whether or not
  their decoding or parsing fails.
\<close>

theorem get_document_metadata_independent:
  "md_pages (get_document_metadata H doc n) = n
   \<and> md_kind (get_document_metadata H doc n) = ascii ''text''
   \<and> (\<forall>items rest. info doc = items # rest \<and> distinct (map fst items) \<longrightarrow>
        md_authors (get_document_metadata H doc n) =
          Option.bind (map_of items (ascii ''Author''))
            (\<lambda>v. Option.bind (decode v)
               (\<lambda>s. if strip s = [] then None else Some (map strip (py_split (strip s) 59))))
      \<and> md_title (get_document_metadata H doc n) =
          Option.bind (map_of items (ascii ''Title''))
            (\<lambda>v. Option.bind (decode v) (\<lambda>s. if strip s = [] then None else Some (strip s)))
      \<and> md_keywords (get_document_metadata H doc n) =
          Option.bind (map_of items (ascii ''Keywords''))
            (\<lambda>v. Option.bind (decode v)
               (\<lambda>s. if strip s = [] then None else Some (map strip (py_split (strip s) 44))))
      \<and> md_createdAt (get_document_metadata H doc n) =
          Option.bind (map_of items (ascii ''CreationDate''))
            (\<lambda>v. Option.bind (decode v)
               (\<lambda>s. case to_date H s of Inr (Some d) \<Rightarrow> Some (isoformat d) | _ \<Rightarrow> None))
      \<and> md_updatedAt (get_document_metadata H doc n) =
          Option.bind (map_of items (ascii ''ModDate''))
            (\<lambda>v. Option.bind (decode v)
               (\<lambda>s. case to_date H s of Inr (Some d) \<Rightarrow> Some (isoformat d) | _ \<Rightarrow> None)))"
  using get_document_metadata_fixed [of H doc n]
    get_document_metadata_authors [of doc _ _ H n]
    get_document_metadata_title [of doc _ _ H n]
    get_document_metadata_keywords [of doc _ _ H n]
    get_document_metadata_createdAt [of doc _ _ H n]
    get_document_metadata_updatedAt [of doc _ _ H n]
  by (intro conjI allI impI) (erule conjE, assumption | blast)+


lemmas eval_simps =
  ascii_def decode_def utf8_next_def strip_def py_isspace_def to_date_def py_slice_def
  strptime_def re_Y_def re_m_def re_d_def re_H_def re_M_def re_S_def digit_value_def
  except_ValueError_def Let_def

theorem get_document_metadata_independent_witness:
  "distinct (map fst [(ascii ''Title'', Bytes '' Report ''),
                      (ascii ''CreationDate'', Bytes ''D:2023''),
                      (ascii ''Author'', Bytes ''Ann; Bob''),
                      (ascii ''ModDate'', Bytes [CHR 0xFF]),
                      (ascii ''Keywords'', Bytes ''x,y'')])
   \<and> md_pages (get_document_metadata linux_utc
        \<lparr>info = [[(ascii ''Title'', Bytes '' Report ''),
                   (ascii ''CreationDate'', Bytes ''D:2023''),
                   (ascii ''Author'', Bytes ''Ann; Bob''),
                   (ascii ''ModDate'', Bytes [CHR 0xFF]),
                   (ascii ''Keywords'', Bytes ''x,y'')]]\<rparr> 7) = 7
   \<and> get_document_metadata linux_utc
        \<lparr>info = [[(ascii ''Title'', Bytes '' Report ''),
                   (ascii ''CreationDate'', Bytes ''D:2023''),
                   (ascii ''Author'', Bytes ''Ann; Bob''),
                   (ascii ''ModDate'', Bytes [CHR 0xFF]),
                   (ascii ''Keywords'', Bytes ''x,y'')]]\<rparr> 7
       = \<lparr>md_kind = ascii ''text'', md_pages = 7,
          md_authors = Some [ascii ''Ann'', ascii ''Bob''],
          md_title = Some (ascii ''Report''),
          md_keywords = Some [ascii ''x'', ascii ''y''],
          md_createdAt = None, md_updatedAt = None\<rparr>"
proof -
  define items where "items =
     [(ascii ''Title'', Bytes '' Report ''), (ascii ''CreationDate'', Bytes ''D:2023''),
      (ascii ''Author'', Bytes ''Ann; Bob''), (ascii ''ModDate'', Bytes [CHR 0xFF]),
      (ascii ''Keywords'', Bytes ''x,y'')]"
  define doc where "doc = \<lparr>info = [items]\<rparr>"
  have i: "info doc = items # []"
    by (simp add: doc_def)
  have d: "distinct (map fst items)"
    by (simp add: items_def ascii_def)
  note th = get_document_metadata_independent [of linux_utc doc 7]
  note fields = th [THEN conjunct2, THEN conjunct2, THEN spec, THEN spec, THEN mp, OF conjI, OF i d]
  have a: "md_authors (get_document_metadata linux_utc doc 7) = Some [ascii ''Ann'', ascii ''Bob'']"
    unfolding fields [THEN conjunct1] by (simp add: items_def eval_simps)
  have t: "md_title (get_document_metadata linux_utc doc 7) = Some (ascii ''Report'')"
    unfolding fields [THEN conjunct2, THEN conjunct1] by (simp add: items_def eval_simps)
  have k: "md_keywords (get_document_metadata linux_utc doc 7) = Some [ascii ''x'', ascii ''y'']"
    unfolding fields [THEN conjunct2, THEN conjunct2, THEN conjunct1]
    by (simp add: items_def eval_simps)
  have c: "md_createdAt (get_document_metadata linux_utc doc 7) = None"
    unfolding fields [THEN conjunct2, THEN conjunct2, THEN conjunct2, THEN conjunct1]
    by (simp add: items_def eval_simps)
  have u: "md_updatedAt (get_document_metadata linux_utc doc 7) = None"
    unfolding fields [THEN conjunct2, THEN conjunct2, THEN conjunct2, THEN conjunct2]
    by (simp add: items_def eval_simps)
  have p: "md_pages (get_document_metadata linux_utc doc 7) = 7"
    by (rule th [THEN conjunct1])
  have kd: "md_kind (get_document_metadata linux_utc doc 7) = ascii ''text''"
    by (rule th [THEN conjunct2, THEN conjunct1])
  have "get_document_metadata linux_utc doc 7
       = \<lparr>md_kind = ascii ''text'', md_pages = 7,
          md_authors = Some [ascii ''Ann'', ascii ''Bob''],
          md_title = Some (ascii ''Report''),
          md_keywords = Some [ascii ''x'', ascii ''y''],
          md_createdAt = None, md_updatedAt = None\<rparr>"
    using a t k c u p kd by (cases "get_document_metadata linux_utc doc 7") simp
  with d p show ?thesis
    unfolding doc_def items_def by simp
qed


text \<open>
  C8. When the document has no property map, or an empty one, the record returned is
  exactly the \<open>properties\<close> block with the page count given: none of the five
  optional keys is present.
\<close>

theorem get_document_metadata_empty:
  assumes "info doc = [] \<or> (\<exists>rest. info doc = [] # rest)"
  shows "get_document_metadata H doc n =
     \<lparr>md_kind = ascii ''text'', md_pages = n, md_authors = None, md_title = None,
      md_keywords = None, md_createdAt = None, md_updatedAt = None\<rparr>"
  using assms by (auto simp: get_document_metadata_def)

theorem get_document_metadata_empty_witness:
  "get_document_metadata linux_utc \<lparr>info = []\<rparr> 12 =
     \<lparr>md_kind = ascii ''text'', md_pages = 12, md_authors = None, md_title = None,
      md_keywords = None, md_createdAt = None, md_updatedAt = None\<rparr>
   \<and> get_document_metadata linux_utc \<lparr>info = [[]]\<rparr> 1 =
     \<lparr>md_kind = ascii ''text'', md_pages = 1, md_authors = None, md_title = None,
      md_keywords = None, md_createdAt = None, md_updatedAt = None\<rparr>"
proof -
  have a: "info \<lparr>info = []\<rparr> = [] \<or> (\<exists>rest. info \<lparr>info = []\<rparr> = [] # rest)"
    by simp
  have b: "info \<lparr>info = [[]]\<rparr> = [] \<or> (\<exists>rest. info \<lparr>info = [[]]\<rparr> = [] # rest)"
    by simp
  show ?thesis
    using get_document_metadata_empty [OF a, of linux_utc 12]
      get_document_metadata_empty [OF b, of linux_utc 1]
    by simp
qed

lemma py_split_nonempty: "py_split s c \<noteq> []"
  by (induction s) (simp_all split: list.split)

lemma py_split_no_sep: "p \<in> set (py_split s c) \<Longrightarrow> c \<notin> set p"
proof (induction s arbitrary: p)
  case Nil
  then show ?case by simp
next
  case (Cons x xs)
  obtain q qs where q: "py_split xs c = q # qs"
    using py_split_nonempty [of xs c] by (cases "py_split xs c") simp_all
  show ?case
  proof (cases "x = c")
    case True
    with Cons.prems have "p = [] \<or> p \<in> set (py_split xs c)" by simp
    with Cons.IH show ?thesis by auto
  next
    case False
    with Cons.prems q have "p = x # q \<or> p \<in> set qs" by simp
    moreover have "c \<notin> set q" using Cons.IH [of q] q by simp
    moreover have "p \<in> set qs \<Longrightarrow> c \<notin> set p" using Cons.IH [of p] q by simp
    ultimately show ?thesis using False by auto
  qed
qed

lemma py_split_join: "concat (map (\<lambda>p. c # p) (py_split s c)) = c # s"
proof (induction s)
  case Nil
  show ?case by simp
next
  case (Cons x xs)
  obtain q qs where q: "py_split xs c = q # qs"
    using py_split_nonempty [of xs c] by (cases "py_split xs c") simp_all
  show ?case
    using Cons.IH by (cases "x = c") (simp_all add: q)
qed

lemma keywords_example:
  "md_keywords (get_document_metadata H \<lparr>info = [[(ascii ''Keywords'', Bytes ''a, b ,c'')]]\<rparr> n)
     = Some [ascii ''a'', ascii ''b'', ascii ''c'']"
proof -
  have "md_keywords (get_document_metadata H \<lparr>info = [[(ascii ''Keywords'', Bytes ''a, b ,c'')]]\<rparr> n)
     = Option.bind (map_of [(ascii ''Keywords'', Bytes ''a, b ,c'')] (ascii ''Keywords''))
       (\<lambda>v. Option.bind (decode v)
          (\<lambda>s. if strip s = [] then None else Some (map strip (py_split (strip s) 44))))"
    by (rule get_document_metadata_keywords [where rest = "[]"]) simp_all
  also have "\<dots> = Some [ascii ''a'', ascii ''b'', ascii ''c'']"
    by (simp add: eval_simps)
  finally show ?thesis .
qed

text \<open>
  C9. When the value stored under \<open>Keywords\<close> decodes as UTF-8 and is not empty once
  stripped, the \<open>keywords\<close> of the record are the parts of the stripped value between
  its commas, each stripped: no part holds a comma, and the parts joined by commas give
  the stripped value back. The value \<open>a, b ,c\<close> gives \<open>["a", "b", "c"]\<close>.
\<close>

theorem keywords_split:
  "(\<forall>items rest b s.
      info doc = items # rest \<and> distinct (map fst items)
      \<and> map_of items (ascii ''Keywords'') = Some (Bytes b)
      \<and> utf8_decode b = Some s \<and> strip s \<noteq> [] \<longrightarrow>
        md_keywords (get_document_metadata H doc n) = Some (map strip (py_split (strip s) 44))
        \<and> (\<forall>p \<in> set (py_split (strip s) 44). 44 \<notin> set p)
        \<and> concat (map (\<lambda>p. 44 # p) (py_split (strip s) 44)) = 44 # strip s)
   \<and> md_keywords (get_document_metadata H \<lparr>info = [[(ascii ''Keywords'', Bytes ''a, b ,c'')]]\<rparr> n)
       = Some [ascii ''a'', ascii ''b'', ascii ''c'']"
proof (intro conjI allI impI ballI)
  fix items rest b s
  assume a: "info doc = items # rest \<and> distinct (map fst items)
      \<and> map_of items (ascii ''Keywords'') = Some (Bytes b)
      \<and> utf8_decode b = Some s \<and> strip s \<noteq> []"
  then have "md_keywords (get_document_metadata H doc n) =
     Option.bind (map_of items (ascii ''Keywords''))
       (\<lambda>v. Option.bind (decode v)
          (\<lambda>s. if strip s = [] then None else Some (map strip (py_split (strip s) 44))))"
    by (intro get_document_metadata_keywords) simp_all
  with a show "md_keywords (get_document_metadata H doc n)
      = Some (map strip (py_split (strip s) 44))"
    by (simp add: decode_def)
next
  fix items :: "(str \<times> pdf_value) list" and rest :: "(str \<times> pdf_value) list list"
    and b :: bytes and s p
  assume "p \<in> set (py_split (strip s) 44)"
  then show "44 \<notin> set p"
    by (rule py_split_no_sep)
next
  fix s
  show "concat (map (\<lambda>p. 44 # p) (py_split (strip s) 44)) = 44 # strip s"
    by (rule py_split_join)
next
  show "md_keywords (get_document_metadata H \<lparr>info = [[(ascii ''Keywords'', Bytes ''a, b ,c'')]]\<rparr> n)
       = Some [ascii ''a'', ascii ''b'', ascii ''c'']"
    by (rule keywords_example)
qed

theorem keywords_split_witness:
  "distinct (map fst [(ascii ''Title'', Bytes ''T''), (ascii ''Keywords'', Bytes '' pdf,, text ; x '')])
   \<and> utf8_decode '' pdf,, text ; x '' = Some (ascii '' pdf,, text ; x '')
   \<and> strip (ascii '' pdf,, text ; x '') \<noteq> []
   \<and> md_keywords (get_document_metadata linux_utc
        \<lparr>info = [[(ascii ''Title'', Bytes ''T''), (ascii ''Keywords'', Bytes '' pdf,, text ; x '')]]\<rparr> 2)
       = Some [ascii ''pdf'', [], ascii ''text ; x'']"
proof -
  define items where
    "items = [(ascii ''Title'', Bytes ''T''), (ascii ''Keywords'', Bytes '' pdf,, text ; x '')]"
  define doc where "doc = \<lparr>info = [items]\<rparr>"
  have h1: "info doc = items # []" by (simp add: doc_def)
  have h2: "distinct (map fst items)" by (simp add: items_def ascii_def)
  have h3: "map_of items (ascii ''Keywords'') = Some (Bytes '' pdf,, text ; x '')"
    by (simp add: items_def ascii_def)
  have h4: "utf8_decode '' pdf,, text ; x '' = Some (ascii '' pdf,, text ; x '')"
    by (simp add: eval_simps)
  have h5: "strip (ascii '' pdf,, text ; x '') \<noteq> []"
    by (simp add: eval_simps)
  have "md_keywords (get_document_metadata linux_utc doc 2)
      = Some (map strip (py_split (strip (ascii '' pdf,, text ; x '')) 44))"
    using keywords_split [of doc linux_utc 2] h1 h2 h3 h4 h5 by blast
  also have "\<dots> = Some [ascii ''pdf'', [], ascii ''text ; x'']"
    by (simp add: eval_simps)
  finally show ?thesis
    using h2 h4 h5 unfolding doc_def items_def by simp
qed



section \<open>The date parser\<close>

subsection \<open>What the backtracking match returns\<close>

lemma match_seq_Some:
  "match_seq H ps s = Some (m, r) \<Longrightarrow> s = m @ r \<and> list_all2 (cls_ok H) ps m"
  by (induction H ps s arbitrary: m r rule: match_seq.induct)
     (auto split: if_splits option.splits)

lemma match_seq_complete:
  "list_all2 (cls_ok H) ps m \<Longrightarrow> match_seq H ps (m @ r) = Some (m, r)"
  by (induction ps arbitrary: m) (auto simp: list_all2_Cons1)

lemma fits_Cons: "fits H as m \<Longrightarrow> fits H (a # as) m"
  by (simp add: fits_def)

lemma fits_head: "list_all2 (cls_ok H) a m \<Longrightarrow> fits H (a # as) m"
  by (simp add: fits_def)

lemma regex_match_sound:
  "regex_match H as gs s = Some (ms, r) \<Longrightarrow>
     s = concat ms @ r \<and> list_all2 (fits H) (as # gs) ms"
proof (induction H as gs s arbitrary: ms r rule: regex_match.induct)
  case (1 H gs s)
  then show ?case by simp
next
  case (2 H a as gs s)
  show ?case
  proof (cases "match_seq H a s")
    case None
    with "2.prems" have "regex_match H as gs s = Some (ms, r)" by simp
    from "2.IH"(1) [OF None this] show ?thesis
      by (auto simp: list_all2_Cons1 intro: fits_Cons)
  next
    case (Some mr)
    obtain m r0 where mr: "mr = (m, r0)" by (cases mr)
    from Some mr match_seq_Some [of H a s m r0]
    have s: "s = m @ r0" and fm: "fits H (a # as) m"
      by (simp_all add: fits_head)
    show ?thesis
    proof (cases gs)
      case Nil
      with "2.prems" Some mr have "ms = [m]" "r = r0" by simp_all
      with s fm Nil show ?thesis by simp
    next
      case (Cons g gs')
      show ?thesis
      proof (cases "regex_match H g gs' r0")
        case None
        with "2.prems" Some mr Cons have rm: "regex_match H as gs s = Some (ms, r)" by simp
        have "(case gs of [] \<Rightarrow> Some ([], r0) | g # gs' \<Rightarrow> regex_match H g gs' r0) = None"
          using None Cons by simp
        from "2.IH"(3) [OF Some mr [symmetric] this rm] show ?thesis
          by (auto simp: list_all2_Cons1 intro: fits_Cons)
      next
        case inner: (Some res)
        obtain ms' r' where res: "res = (ms', r')" by (cases res)
        with "2.prems" Some mr Cons inner have out: "ms = m # ms'" "r = r'" by simp_all
        from "2.IH"(2) [OF Some mr [symmetric] Cons] inner res
        have "r0 = concat ms' @ r' \<and> list_all2 (fits H) (g # gs') ms'" by simp
        with s fm out Cons show ?thesis by simp
      qed
    qed
  qed
qed

lemma digit_value_ascii: "48 \<le> c \<Longrightarrow> c \<le> 57 \<Longrightarrow> digit_value H c = Some (c - 48)"
  by (simp add: digit_value_def)

lemma digit_value_props: "digit_value H c = Some v \<Longrightarrow> v \<le> 9 \<and> \<not> py_isspace c"
  by (auto simp: digit_value_def py_isspace_def split: if_splits option.splits)

lemma strip_no_space:
  "s \<noteq> [] \<Longrightarrow> \<not> py_isspace (hd s) \<Longrightarrow> \<not> py_isspace (last s) \<Longrightarrow> strip s = s"
proof -
  assume a: "s \<noteq> []" "\<not> py_isspace (hd s)" "\<not> py_isspace (last s)"
  then have 1: "dropWhile py_isspace s = s"
    by (cases s) simp_all
  from a have 2: "dropWhile py_isspace (rev s) = rev s"
    by (cases "rev s") (simp_all add: hd_rev)
  show ?thesis
    by (simp add: strip_def 1 2)
qed

lemma py_int_one: "digit_value H a = Some va \<Longrightarrow> py_int H [a] = Some (int va)"
  using digit_value_props [of H a va] strip_no_space [of "[a]"]
  by (simp add: py_int_def)

lemma py_int_two:
  "digit_value H a = Some va \<Longrightarrow> digit_value H b = Some vb \<Longrightarrow>
   py_int H [a, b] = Some (10 * int va + int vb)"
  using digit_value_props [of H a va] digit_value_props [of H b vb] strip_no_space [of "[a, b]"]
  by (simp add: py_int_def)


lemma py_int_space_digit:
  assumes "digit_value H b = Some vb"
  shows "py_int H [32, b] = Some (int vb)"
proof -
  have sp: "py_isspace 32"
    by (simp add: py_isspace_def)
  have nb: "\<not> py_isspace b"
    using digit_value_props [OF assms] by simp
  have "strip [32, b] = [b]"
    using sp nb by (simp add: strip_def)
  with assms show ?thesis
    by (simp add: py_int_def)
qed

lemma fits_re_Y:
  "fits H re_Y m \<longleftrightarrow>
     (\<exists>a b c d. m = [a, b, c, d] \<and> digit_value H a \<noteq> None \<and> digit_value H b \<noteq> None
        \<and> digit_value H c \<noteq> None \<and> digit_value H d \<noteq> None)"
  by (auto simp: fits_def re_Y_def list_all2_Cons1)

lemma fits_re_m:
  "fits H re_m m \<longleftrightarrow>
     (\<exists>a b. m = [a, b] \<and> ((a = 49 \<and> 48 \<le> b \<and> b \<le> 50) \<or> (a = 48 \<and> 49 \<le> b \<and> b \<le> 57)))
     \<or> (\<exists>a. m = [a] \<and> 49 \<le> a \<and> a \<le> 57)"
  by (auto simp: fits_def re_m_def list_all2_Cons1)

lemma fits_re_d:
  "fits H re_d m \<longleftrightarrow>
     (\<exists>a b. m = [a, b] \<and> ((a = 51 \<and> 48 \<le> b \<and> b \<le> 49)
                          \<or> (49 \<le> a \<and> a \<le> 50 \<and> digit_value H b \<noteq> None)
                          \<or> (a = 48 \<and> 49 \<le> b \<and> b \<le> 57)
                          \<or> (a = 32 \<and> 49 \<le> b \<and> b \<le> 57)))
     \<or> (\<exists>a. m = [a] \<and> 49 \<le> a \<and> a \<le> 57)"
  by (auto simp: fits_def re_d_def list_all2_Cons1)

lemma fits_re_H:
  "fits H re_H m \<longleftrightarrow>
     (\<exists>a b. m = [a, b] \<and> ((a = 50 \<and> 48 \<le> b \<and> b \<le> 51)
                          \<or> (48 \<le> a \<and> a \<le> 49 \<and> digit_value H b \<noteq> None)))
     \<or> (\<exists>a. m = [a] \<and> digit_value H a \<noteq> None)"
  by (auto simp: fits_def re_H_def list_all2_Cons1)

lemma fits_re_M:
  "fits H re_M m \<longleftrightarrow>
     (\<exists>a b. m = [a, b] \<and> 48 \<le> a \<and> a \<le> 53 \<and> digit_value H b \<noteq> None)
     \<or> (\<exists>a. m = [a] \<and> digit_value H a \<noteq> None)"
  by (auto simp: fits_def re_M_def list_all2_Cons1)

lemma fits_re_S:
  "fits H re_S m \<longleftrightarrow>
     (\<exists>a b. m = [a, b] \<and> ((a = 54 \<and> 48 \<le> b \<and> b \<le> 49)
                          \<or> (48 \<le> a \<and> a \<le> 53 \<and> digit_value H b \<noteq> None)))
     \<or> (\<exists>a. m = [a] \<and> digit_value H a \<noteq> None)"
  by (auto simp: fits_def re_S_def list_all2_Cons1)

lemma strptime_error: "strptime H s = Inl e \<Longrightarrow> e = ValueError"
  unfolding strptime_def
  by (simp split: option.splits list.splits prod.splits if_splits)

lemma strptime_Inr:
  assumes "strptime H s = Inr ts"
  shows "\<exists>gY gm gd gH gM gS year month day hour minute second.
    regex_match H re_Y [re_m, re_d, re_H, re_M, re_S] s = Some ([gY, gm, gd, gH, gM, gS], [])
    \<and> py_int H gY = Some year \<and> py_int H gm = Some month \<and> py_int H gd = Some day
    \<and> py_int H gH = Some hour \<and> py_int H gM = Some minute \<and> py_int H gS = Some second
    \<and> 1 \<le> year \<and> year \<le> 9999 \<and> 1 \<le> month \<and> month \<le> 12
    \<and> 1 \<le> day \<and> day \<le> days_in_month year month
    \<and> ts = \<lparr>tm_year = year, tm_mon = month, tm_mday = day, tm_hour = hour,
              tm_min = minute, tm_sec = second,
              tm_wday = (ymd2ord year month day + 6) mod 7,
              tm_yday = ymd2ord year month day - ymd2ord year 1 1 + 1,
              tm_isdst = - 1\<rparr>"
  using assms unfolding strptime_def
  by (simp split: option.splits list.splits prod.splits if_splits)

lemma strptime_groups:
  assumes "strptime H s = Inr ts"
  obtains gY gm gd gH gM gS where
    "s = gY @ gm @ gd @ gH @ gM @ gS"
    "fits H re_Y gY" "fits H re_m gm" "fits H re_d gd"
    "fits H re_H gH" "fits H re_M gM" "fits H re_S gS"
    "py_int H gY = Some (tm_year ts)" "py_int H gm = Some (tm_mon ts)"
    "py_int H gd = Some (tm_mday ts)" "py_int H gH = Some (tm_hour ts)"
    "py_int H gM = Some (tm_min ts)" "py_int H gS = Some (tm_sec ts)"
    "1 \<le> tm_year ts" "tm_year ts \<le> 9999" "1 \<le> tm_mon ts" "tm_mon ts \<le> 12"
    "1 \<le> tm_mday ts" "tm_mday ts \<le> days_in_month (tm_year ts) (tm_mon ts)"
  using strptime_Inr [OF assms]
proof (elim exE conjE)
  fix gY gm gd gH gM gS year month day hour minute second
  assume rm: "regex_match H re_Y [re_m, re_d, re_H, re_M, re_S] s
        = Some ([gY, gm, gd, gH, gM, gS], [])"
    and vals: "py_int H gY = Some year" "py_int H gm = Some month" "py_int H gd = Some day"
      "py_int H gH = Some hour" "py_int H gM = Some minute" "py_int H gS = Some second"
    and cal: "1 \<le> year" "year \<le> 9999" "1 \<le> month" "month \<le> 12" "1 \<le> day"
      "day \<le> days_in_month year month"
    and ts: "ts = \<lparr>tm_year = year, tm_mon = month, tm_mday = day, tm_hour = hour,
              tm_min = minute, tm_sec = second,
              tm_wday = (ymd2ord year month day + 6) mod 7,
              tm_yday = ymd2ord year month day - ymd2ord year 1 1 + 1,
              tm_isdst = - 1\<rparr>"
  from regex_match_sound [OF rm]
  have p: "s = gY @ gm @ gd @ gH @ gM @ gS" "fits H re_Y gY" "fits H re_m gm" "fits H re_d gd"
    "fits H re_H gH" "fits H re_M gM" "fits H re_S gS"
    by simp_all
  have f: "tm_year ts = year" "tm_mon ts = month" "tm_mday ts = day" "tm_hour ts = hour"
    "tm_min ts = minute" "tm_sec ts = second"
    by (simp_all add: ts)
  show thesis
    by (rule that [OF p]) (simp_all only: f vals cal)
qed

lemma fits_lengths:
  "fits H re_Y g \<Longrightarrow> length g = 4"
  "fits H re_m g \<Longrightarrow> 1 \<le> length g \<and> length g \<le> 2"
  "fits H re_d g \<Longrightarrow> 1 \<le> length g \<and> length g \<le> 2"
  "fits H re_H g \<Longrightarrow> 1 \<le> length g \<and> length g \<le> 2"
  "fits H re_M g \<Longrightarrow> 1 \<le> length g \<and> length g \<le> 2"
  "fits H re_S g \<Longrightarrow> 1 \<le> length g \<and> length g \<le> 2"
  by (auto simp: fits_re_Y fits_re_m fits_re_d fits_re_H fits_re_M fits_re_S)


lemma strptime_length:
  assumes "strptime H s = Inr ts"
  shows "9 \<le> length s \<and> length s \<le> 14"
proof -
  from assms obtain gY gm gd gH gM gS where
    s: "s = gY @ gm @ gd @ gH @ gM @ gS" and f: "fits H re_Y gY" "fits H re_m gm"
      "fits H re_d gd" "fits H re_H gH" "fits H re_M gM" "fits H re_S gS"
    by (rule strptime_groups)
  show ?thesis
    using fits_lengths(1) [OF f(1)] fits_lengths(2) [OF f(2)] fits_lengths(3) [OF f(3)]
      fits_lengths(4) [OF f(4)] fits_lengths(5) [OF f(5)] fits_lengths(6) [OF f(6)]
    by (simp add: s)
qed


subsection \<open>\<open>to_date\<close> and the fields of a parsed date\<close>

lemma length_py_slice: "length (py_slice s 2 (- 7)) = length s - 9"
  by (simp add: py_slice_def Let_def)

lemma py_slice_core: "9 \<le> length s \<Longrightarrow> py_slice s 2 (- 7) = take (length s - 9) (drop 2 s)"
proof -
  assume h: "9 \<le> length s"
  then have "nat (max 0 (min (int (length s)) (int (length s) + - 7))
            - max 0 (min (int (length s)) 2)) = length s - 9"
    by linarith
  moreover from h have "nat (max 0 (min (int (length s)) 2)) = 2"
    by linarith
  ultimately show ?thesis
    by (simp add: py_slice_def Let_def)
qed

lemma to_date_reject:
  "strptime H (py_slice s 2 (- 7)) = Inl e \<Longrightarrow> to_date H s = Inr None"
  using strptime_error [of H "py_slice s 2 (- 7)" e]
  by (simp add: to_date_def except_ValueError_def)


lemma to_date_parsed:
  "to_date H s \<noteq> Inr None \<Longrightarrow> \<exists>ts. strptime H (py_slice s 2 (- 7)) = Inr ts"
  using to_date_reject [of H s] by (cases "strptime H (py_slice s 2 (- 7))") auto



lemma to_date_length:
  assumes "to_date H s \<noteq> Inr None"
  shows "18 \<le> length s \<and> length s \<le> 23"
proof -
  from to_date_parsed [OF assms] obtain ts where "strptime H (py_slice s 2 (- 7)) = Inr ts"
    by blast
  from strptime_length [OF this] show ?thesis
    by (simp add: length_py_slice) linarith
qed

lemma fits_H_bound:
  assumes "fits H re_H g" "py_int H g = Some v"
  shows "0 \<le> v \<and> v \<le> 23"
proof -
  from assms(1) consider a b where "g = [a, b]" "a = 50" "48 \<le> b" "b \<le> 51"
    | a b where "g = [a, b]" "48 \<le> a" "a \<le> 49" "digit_value H b \<noteq> None"
    | a where "g = [a]" "digit_value H a \<noteq> None"
    unfolding fits_re_H by blast
  then show ?thesis
  proof cases
    case 1
    then have "py_int H g = Some (10 * int (a - 48) + int (b - 48))"
      by (simp add: py_int_two digit_value_ascii)
    with assms(2) 1 show ?thesis by auto
  next
    case 2
    then obtain vb where vb: "digit_value H b = Some vb" by auto
    with 2 have "py_int H g = Some (10 * int (a - 48) + int vb)"
      by (simp add: py_int_two digit_value_ascii)
    with assms(2) 2 digit_value_props [OF vb] show ?thesis by auto
  next
    case 3
    then obtain va where va: "digit_value H a = Some va" by auto
    with 3 have "py_int H g = Some (int va)"
      by (simp add: py_int_one)
    with assms(2) digit_value_props [OF va] show ?thesis by auto
  qed
qed

lemma fits_M_bound:
  assumes "fits H re_M g" "py_int H g = Some v"
  shows "0 \<le> v \<and> v \<le> 59"
proof -
  from assms(1) consider a b where "g = [a, b]" "48 \<le> a" "a \<le> 53" "digit_value H b \<noteq> None"
    | a where "g = [a]" "digit_value H a \<noteq> None"
    unfolding fits_re_M by blast
  then show ?thesis
  proof cases
    case 1
    then obtain vb where vb: "digit_value H b = Some vb" by auto
    with 1 have "py_int H g = Some (10 * int (a - 48) + int vb)"
      by (simp add: py_int_two digit_value_ascii)
    with assms(2) 1 digit_value_props [OF vb] show ?thesis by auto
  next
    case 2
    then obtain va where va: "digit_value H a = Some va" by auto
    with 2 have "py_int H g = Some (int va)"
      by (simp add: py_int_one)
    with assms(2) digit_value_props [OF va] show ?thesis by auto
  qed
qed

lemma fits_S_bound:
  assumes "fits H re_S g" "py_int H g = Some v"
  shows "0 \<le> v \<and> v \<le> 61"
proof -
  from assms(1) consider a b where "g = [a, b]" "a = 54" "48 \<le> b" "b \<le> 49"
    | a b where "g = [a, b]" "48 \<le> a" "a \<le> 53" "digit_value H b \<noteq> None"
    | a where "g = [a]" "digit_value H a \<noteq> None"
    unfolding fits_re_S by blast
  then show ?thesis
  proof cases
    case 1
    then have "py_int H g = Some (10 * int (a - 48) + int (b - 48))"
      by (simp add: py_int_two digit_value_ascii)
    with assms(2) 1 show ?thesis by auto
  next
    case 2
    then obtain vb where vb: "digit_value H b = Some vb" by auto
    with 2 have "py_int H g = Some (10 * int (a - 48) + int vb)"
      by (simp add: py_int_two digit_value_ascii)
    with assms(2) 2 digit_value_props [OF vb] show ?thesis by auto
  next
    case 3
    then obtain va where va: "digit_value H a = Some va" by auto
    with 3 have "py_int H g = Some (int va)"
      by (simp add: py_int_one)
    with assms(2) digit_value_props [OF va] show ?thesis by auto
  qed
qed

lemma strptime_fields:
  assumes "strptime H c = Inr ts"
  shows "1 \<le> tm_year ts \<and> tm_year ts \<le> 9999 \<and> 1 \<le> tm_mon ts \<and> tm_mon ts \<le> 12
    \<and> 1 \<le> tm_mday ts \<and> tm_mday ts \<le> days_in_month (tm_year ts) (tm_mon ts)
    \<and> 0 \<le> tm_hour ts \<and> tm_hour ts \<le> 23 \<and> 0 \<le> tm_min ts \<and> tm_min ts \<le> 59
    \<and> 0 \<le> tm_sec ts \<and> tm_sec ts \<le> 61"
proof -
  from assms obtain gY gm gd gH gM gS where
    "fits H re_H gH" "fits H re_M gM" "fits H re_S gS"
    "py_int H gH = Some (tm_hour ts)" "py_int H gM = Some (tm_min ts)"
    "py_int H gS = Some (tm_sec ts)"
    "1 \<le> tm_year ts" "tm_year ts \<le> 9999" "1 \<le> tm_mon ts" "tm_mon ts \<le> 12"
    "1 \<le> tm_mday ts" "tm_mday ts \<le> days_in_month (tm_year ts) (tm_mon ts)"
    by (rule strptime_groups)
  then show ?thesis
    using fits_H_bound [of H gH "tm_hour ts"] fits_M_bound [of H gM "tm_min ts"]
      fits_S_bound [of H gS "tm_sec ts"]
    by simp
qed

lemma strptime_14:
  assumes "strptime H c = Inr ts" "length c = 14"
  shows "py_int H (take 4 c) = Some (tm_year ts)
    \<and> py_int H (take 2 (drop 4 c)) = Some (tm_mon ts)
    \<and> py_int H (take 2 (drop 6 c)) = Some (tm_mday ts)
    \<and> py_int H (take 2 (drop 8 c)) = Some (tm_hour ts)
    \<and> py_int H (take 2 (drop 10 c)) = Some (tm_min ts)
    \<and> py_int H (drop 12 c) = Some (tm_sec ts)"
proof -
  from assms(1) obtain gY gm gd gH gM gS where
    c: "c = gY @ gm @ gd @ gH @ gM @ gS"
    and f: "fits H re_Y gY" "fits H re_m gm" "fits H re_d gd"
      "fits H re_H gH" "fits H re_M gM" "fits H re_S gS"
    and v: "py_int H gY = Some (tm_year ts)" "py_int H gm = Some (tm_mon ts)"
      "py_int H gd = Some (tm_mday ts)" "py_int H gH = Some (tm_hour ts)"
      "py_int H gM = Some (tm_min ts)" "py_int H gS = Some (tm_sec ts)"
    by (rule strptime_groups)
  have l: "length gY = 4" "length gm = 2" "length gd = 2" "length gH = 2" "length gM = 2"
    "length gS = 2"
    using fits_lengths(1) [OF f(1)] fits_lengths(2) [OF f(2)] fits_lengths(3) [OF f(3)]
      fits_lengths(4) [OF f(4)] fits_lengths(5) [OF f(5)] fits_lengths(6) [OF f(6)] assms(2)
    by (simp_all add: c)
  show ?thesis
    by (simp add: c l v)
qed

subsection \<open>Slices of 14 ASCII digits\<close>













subsection \<open>Evaluation on the reference host\<close>

lemmas host_simps =
  linux_utc_def utc_mktime_def utc_fromtimestamp_def ord2ymd_def days_before_year_def
  days_before_month_def days_in_month_def is_leap_def ymd2ord_def py_int_def




text \<open>
  C10, as stated, fails for inputs shorter than 23 characters: the 18-character input
  \<open>D:202311111+00'00'\<close> has the 9-character slice \<open>202311111\<close>, which \<open>strptime\<close>
  reads as year 2023 and month, day, hour, minute and second 1.
\<close>

theorem to_date_nine_digit_core:
  "length (ascii ''D:202311111+00'' @ [39, 48, 48, 39]) = 18
   \<and> to_date linux_utc (ascii ''D:202311111+00'' @ [39, 48, 48, 39])
       = Inr (Some \<lparr>dt_year = 2023, dt_month = 1, dt_day = 1, dt_hour = 1,
                     dt_minute = 1, dt_second = 1\<rparr>)"
  by (simp add: eval_simps host_simps)

lemma to_date_suffixless: "to_date H (ascii ''D:20230101120000'') = Inr None"
proof (rule ccontr)
  assume "to_date H (ascii ''D:20230101120000'') \<noteq> Inr None"
  from to_date_length [OF this] show False
    by (simp add: ascii_def)
qed

lemma decode_suffixless:
  "decode (Bytes ''D:20230101120000'') = Some (ascii ''D:20230101120000'')"
  by (simp add: decode_def utf8_next_def ascii_def)

text \<open>
  C10, amended. \<open>to_date\<close> returns a datetime only for input strings of 18 to 23
  characters, whose slice \<open>date_str[2:-7]\<close> has 9 to 14 characters. For an input of
  23 characters the slice is the 14 characters at positions 2 to 15, and they must read
  as \<open>YYYYMMDDHHMMSS\<close> with a year from 1, a month from 1 to 12, a day of that month,
  an hour up to 23, a minute up to 59 and a second up to 61. The suffix-less
  \<open>D:20230101120000\<close> has 16 characters: \<open>to_date\<close> returns \<open>None\<close> and the
  \<open>createdAt\<close> or \<open>updatedAt\<close> field is left out.
\<close>

theorem to_date_input_lengths:
  "(to_date H date_str \<noteq> Inr None \<longrightarrow> 18 \<le> length date_str \<and> length date_str \<le> 23)
   \<and> (length date_str = 23 \<and> to_date H date_str \<noteq> Inr None \<longrightarrow>
        (let core = take 14 (drop 2 date_str)
         in \<exists>ts. strptime H core = Inr ts
              \<and> py_int H (take 4 core) = Some (tm_year ts)
              \<and> py_int H (take 2 (drop 4 core)) = Some (tm_mon ts)
              \<and> py_int H (take 2 (drop 6 core)) = Some (tm_mday ts)
              \<and> py_int H (take 2 (drop 8 core)) = Some (tm_hour ts)
              \<and> py_int H (take 2 (drop 10 core)) = Some (tm_min ts)
              \<and> py_int H (drop 12 core) = Some (tm_sec ts)
              \<and> 1 \<le> tm_year ts \<and> tm_year ts \<le> 9999 \<and> 1 \<le> tm_mon ts \<and> tm_mon ts \<le> 12
              \<and> 1 \<le> tm_mday ts \<and> tm_mday ts \<le> days_in_month (tm_year ts) (tm_mon ts)
              \<and> 0 \<le> tm_hour ts \<and> tm_hour ts \<le> 23 \<and> 0 \<le> tm_min ts \<and> tm_min ts \<le> 59
              \<and> 0 \<le> tm_sec ts \<and> tm_sec ts \<le> 61))
   \<and> to_date H (ascii ''D:20230101120000'') = Inr None
   \<and> md_createdAt (get_document_metadata H
        \<lparr>info = [[(ascii ''CreationDate'', Bytes ''D:20230101120000'')]]\<rparr> n) = None
   \<and> md_updatedAt (get_document_metadata H
        \<lparr>info = [[(ascii ''ModDate'', Bytes ''D:20230101120000'')]]\<rparr> n) = None"
proof (intro conjI impI)
  assume "to_date H date_str \<noteq> Inr None"
  then show "18 \<le> length date_str" "length date_str \<le> 23"
    using to_date_length by blast+
next
  assume a: "length date_str = 23 \<and> to_date H date_str \<noteq> Inr None"
  then have sl: "py_slice date_str 2 (- 7) = take 14 (drop 2 date_str)"
    by (simp add: py_slice_core)
  from a obtain ts where ts: "strptime H (take 14 (drop 2 date_str)) = Inr ts"
    using to_date_parsed [of H date_str] sl by auto
  have len: "length (take 14 (drop 2 date_str)) = 14"
    using a by simp
  show "let core = take 14 (drop 2 date_str)
         in \<exists>ts. strptime H core = Inr ts
              \<and> py_int H (take 4 core) = Some (tm_year ts)
              \<and> py_int H (take 2 (drop 4 core)) = Some (tm_mon ts)
              \<and> py_int H (take 2 (drop 6 core)) = Some (tm_mday ts)
              \<and> py_int H (take 2 (drop 8 core)) = Some (tm_hour ts)
              \<and> py_int H (take 2 (drop 10 core)) = Some (tm_min ts)
              \<and> py_int H (drop 12 core) = Some (tm_sec ts)
              \<and> 1 \<le> tm_year ts \<and> tm_year ts \<le> 9999 \<and> 1 \<le> tm_mon ts \<and> tm_mon ts \<le> 12
              \<and> 1 \<le> tm_mday ts \<and> tm_mday ts \<le> days_in_month (tm_year ts) (tm_mon ts)
              \<and> 0 \<le> tm_hour ts \<and> tm_hour ts \<le> 23 \<and> 0 \<le> tm_min ts \<and> tm_min ts \<le> 59
              \<and> 0 \<le> tm_sec ts \<and> tm_sec ts \<le> 61"
    unfolding Let_def
    using ts strptime_14 [OF ts len] strptime_fields [OF ts]
    by (intro exI [of _ ts]) (simp only: simp_thms)
next
  show "to_date H (ascii ''D:20230101120000'') = Inr None"
    by (rule to_date_suffixless)
next
  have "md_createdAt (get_document_metadata H
        \<lparr>info = [[(ascii ''CreationDate'', Bytes ''D:20230101120000'')]]\<rparr> n)
      = Option.bind (map_of [(ascii ''CreationDate'', Bytes ''D:20230101120000'')]
                      (ascii ''CreationDate''))
          (\<lambda>v. Option.bind (decode v)
             (\<lambda>s. case to_date H s of Inr (Some d) \<Rightarrow> Some (isoformat d) | _ \<Rightarrow> None))"
    by (rule get_document_metadata_createdAt [where rest = "[]"]) simp_all
  then show "md_createdAt (get_document_metadata H
        \<lparr>info = [[(ascii ''CreationDate'', Bytes ''D:20230101120000'')]]\<rparr> n) = None"
    by (simp add: decode_suffixless to_date_suffixless)
next
  have "md_updatedAt (get_document_metadata H
        \<lparr>info = [[(ascii ''ModDate'', Bytes ''D:20230101120000'')]]\<rparr> n)
      = Option.bind (map_of [(ascii ''ModDate'', Bytes ''D:20230101120000'')]
                      (ascii ''ModDate''))
          (\<lambda>v. Option.bind (decode v)
             (\<lambda>s. case to_date H s of Inr (Some d) \<Rightarrow> Some (isoformat d) | _ \<Rightarrow> None))"
    by (rule get_document_metadata_updatedAt [where rest = "[]"]) simp_all
  then show "md_updatedAt (get_document_metadata H
        \<lparr>info = [[(ascii ''ModDate'', Bytes ''D:20230101120000'')]]\<rparr> n) = None"
    by (simp add: decode_suffixless to_date_suffixless)
qed

theorem to_date_input_lengths_witness:
  "length (ascii ''D:20240229235959+01'' @ [39, 48, 48, 39]) = 23
   \<and> to_date linux_utc (ascii ''D:20240229235959+01'' @ [39, 48, 48, 39])
       = Inr (Some \<lparr>dt_year = 2024, dt_month = 2, dt_day = 29, dt_hour = 23,
                     dt_minute = 59, dt_second = 59\<rparr>)
   \<and> (\<exists>ts. strptime linux_utc (ascii ''20240229235959'') = Inr ts
          \<and> tm_mon ts = 2 \<and> tm_mday ts = 29 \<and> tm_mday ts \<le> days_in_month (tm_year ts) (tm_mon ts))"
proof -
  define s where "s = ascii ''D:20240229235959+01'' @ [39, 48, 48, 39]"
  have l: "length s = 23"
    by (simp add: s_def ascii_def)
  have v: "to_date linux_utc s
       = Inr (Some \<lparr>dt_year = 2024, dt_month = 2, dt_day = 29, dt_hour = 23,
                     dt_minute = 59, dt_second = 59\<rparr>)"
    unfolding s_def by (simp add: eval_simps host_simps)
  then have nn: "to_date linux_utc s \<noteq> Inr None"
    by simp
  have core: "take 14 (drop 2 s) = ascii ''20240229235959''"
    by (simp add: s_def ascii_def)
  have "\<exists>ts. strptime linux_utc (ascii ''20240229235959'') = Inr ts
          \<and> py_int linux_utc (take 2 (drop 4 (ascii ''20240229235959''))) = Some (tm_mon ts)
          \<and> py_int linux_utc (take 2 (drop 6 (ascii ''20240229235959''))) = Some (tm_mday ts)
          \<and> tm_mday ts \<le> days_in_month (tm_year ts) (tm_mon ts)"
    using to_date_input_lengths [of linux_utc s, THEN conjunct2, THEN conjunct1, THEN mp,
        OF conjI, OF l nn]
    unfolding Let_def core by blast
  then obtain ts where ts: "strptime linux_utc (ascii ''20240229235959'') = Inr ts"
      "py_int linux_utc (take 2 (drop 4 (ascii ''20240229235959''))) = Some (tm_mon ts)"
      "py_int linux_utc (take 2 (drop 6 (ascii ''20240229235959''))) = Some (tm_mday ts)"
      "tm_mday ts \<le> days_in_month (tm_year ts) (tm_mon ts)"
    by blast
  from ts(2,3) have "tm_mon ts = 2" "tm_mday ts = 29"
    by (simp_all add: eval_simps host_simps)
  with ts(1,4) l v show ?thesis
    unfolding s_def by blast
qed

end
